theory Spec2Isabelle
  imports Main "HOL-Library.Char_ord" "HOL-Library.List_Lexorder"
begin

section \<open>Strings of the host language\<close>

text \<open>
  A JavaScript string is a sequence of code units. The model uses \<^typ>\<open>string\<close>, that is
  the code units \<open>0x00 .. 0xFF\<close>; the character classes below are the ECMAScript
  ones cut down to that range.
\<close>

definition isSpace :: "char \<Rightarrow> bool" where
  \<comment> \<open>the regular expression class \<open>\s\<close> (and what \<open>trim\<close> strips): TAB, LF, VT, FF, CR, SP, NBSP\<close>
  "isSpace c = (of_char c \<in> {9, 10, 11, 12, 13, 32, 160 :: nat})"

definition isSep :: "char \<Rightarrow> bool" where
  \<comment> \<open>the class \<open>[\s_/]\<close>\<close>
  "isSep c = (isSpace c \<or> c = CHR ''_'' \<or> c = CHR ''/'')"

definition lowerChar :: "char \<Rightarrow> char" where
  "lowerChar c =
     (let n = (of_char c :: nat)
      in if (65 \<le> n \<and> n \<le> 90) \<or> (192 \<le> n \<and> n \<le> 222 \<and> n \<noteq> 215)
         then char_of (n + 32) else c)"

definition toLowerCase :: "string \<Rightarrow> string" where
  "toLowerCase s = map lowerChar s"

text \<open>\<open>s.replace(/[P]+/g, ' ')\<close>: every maximal run of characters of the class becomes one space.\<close>

function collapse :: "(char \<Rightarrow> bool) \<Rightarrow> string \<Rightarrow> string" where
  "collapse P [] = []"
| "collapse P (c # cs) =
     (if P c then CHR '' '' # collapse P (dropWhile P cs) else c # collapse P cs)"
  by pat_completeness auto
termination
  by (relation "measure (\<lambda>(P, s). length s)") (auto simp: less_Suc_eq_le length_dropWhile_le)

definition trimStart :: "string \<Rightarrow> string" where
  "trimStart s = dropWhile isSpace s"

definition trimEnd :: "string \<Rightarrow> string" where
  "trimEnd s = rev (dropWhile isSpace (rev s))"

definition trim :: "string \<Rightarrow> string" where
  "trim s = trimEnd (trimStart s)"

text \<open>
  \<open>Array.prototype.sort(compare)\<close>: a stable sort by the comparator (negative: first
  argument first). The comparator, \<open>localeCompare\<close> for a fixed locale, is a function of
  the platform and a parameter of the model.
\<close>

type_synonym comparator = "string \<Rightarrow> string \<Rightarrow> int"

fun insertBy :: "('a \<Rightarrow> 'a \<Rightarrow> int) \<Rightarrow> 'a \<Rightarrow> 'a list \<Rightarrow> 'a list" where
  "insertBy cmp x [] = [x]"
| "insertBy cmp x (y # ys) = (if cmp x y \<le> 0 then x # y # ys else y # insertBy cmp x ys)"

definition jsSort :: "('a \<Rightarrow> 'a \<Rightarrow> int) \<Rightarrow> 'a list \<Rightarrow> 'a list" where
  "jsSort cmp xs = foldr (insertBy cmp) xs []"

definition consistent :: "('a \<Rightarrow> 'a \<Rightarrow> int) \<Rightarrow> bool" where
  \<comment> \<open>a consistent comparator in the sense of the language standard: a total preorder\<close>
  "consistent cmp =
     ((\<forall>a b. cmp a b \<le> 0 \<or> cmp b a \<le> 0) \<and>
      (\<forall>a b c. cmp a b \<le> 0 \<and> cmp b c \<le> 0 \<longrightarrow> cmp a c \<le> 0))"

definition codeUnitCompare :: comparator where
  \<comment> \<open>comparison by code units, a concrete consistent comparator\<close>
  "codeUnitCompare a b = (if a = b then 0 else if a < b then - 1 else 1)"

section \<open>Objects of the host language\<close>

text \<open>
  A JavaScript object with string keys, as the list of its own properties in the order
  \<open>Object.entries\<close>, \<open>Object.keys\<close> and \<open>JSON.stringify\<close> enumerate them: the keys that
  are array indices first, in ascending numeric order, then the other keys in the order
  they were created.
\<close>

definition isDigit :: "char \<Rightarrow> bool" where
  "isDigit c = (48 \<le> (of_char c :: nat) \<and> (of_char c :: nat) \<le> 57)"

definition indexValue :: "string \<Rightarrow> nat" where
  "indexValue s = foldl (\<lambda>n c. 10 * n + (of_char c - 48)) 0 s"

definition isArrayIndex :: "string \<Rightarrow> bool" where
  \<comment> \<open>a canonical numeric string below \<open>2^32 - 1\<close>\<close>
  "isArrayIndex s =
     (s \<noteq> [] \<and> list_all isDigit s \<and> (length s = 1 \<or> hd s \<noteq> CHR ''0'') \<and>
      indexValue s < 4294967295)"

fun insertIndexKey :: "string \<Rightarrow> 'v \<Rightarrow> (string \<times> 'v) list \<Rightarrow> (string \<times> 'v) list" where
  "insertIndexKey k v [] = [(k, v)]"
| "insertIndexKey k v ((k', v') # rest) =
     (if isArrayIndex k' \<and> indexValue k' < indexValue k then (k', v') # insertIndexKey k v rest
      else (k, v) # (k', v') # rest)"

definition obj_set :: "(string \<times> 'v) list \<Rightarrow> string \<Rightarrow> 'v \<Rightarrow> (string \<times> 'v) list" where
  \<comment> \<open>\<open>obj[k] = v\<close>\<close>
  "obj_set obj k v =
     (if map_of obj k \<noteq> None then map (\<lambda>(k', v'). if k' = k then (k', v) else (k', v')) obj
      else if isArrayIndex k then insertIndexKey k v obj
      else obj @ [(k, v)])"

definition obj_delete :: "(string \<times> 'v) list \<Rightarrow> string \<Rightarrow> (string \<times> 'v) list" where
  \<comment> \<open>\<open>delete obj[k]\<close>\<close>
  "obj_delete obj k = filter (\<lambda>(k', v'). k' \<noteq> k) obj"

definition fromEntries :: "(string \<times> 'v) list \<Rightarrow> (string \<times> 'v) list" where
  \<comment> \<open>\<open>Object.fromEntries\<close>, and the object \<open>JSON.parse\<close> builds from members in this order\<close>
  "fromEntries entries = fold (\<lambda>(k, v) obj. obj_set obj k v) entries []"

section \<open>taxonomy.ts\<close>

definition normalizeTag :: "string \<Rightarrow> string" where
  "normalizeTag tag =
     (if tag = [] then []
      else trim (collapse isSpace (collapse isSep tag)))"

text \<open>The loop of \<open>dedupe\<close>; \<open>seen\<close> is the \<open>Map\<close>, its entries in insertion order.\<close>

fun dedupe_loop :: "(string \<times> string) list \<Rightarrow> string list \<Rightarrow> (string \<times> string) list" where
  "dedupe_loop seen [] = seen"
| "dedupe_loop seen (tag # tags) =
     (let normalized = normalizeTag tag in
      if normalized = [] then dedupe_loop seen tags
      else let key = toLowerCase normalized in
        if map_of seen key = None then dedupe_loop (seen @ [(key, normalized)]) tags
        else dedupe_loop seen tags)"

definition dedupe :: "comparator \<Rightarrow> string list \<Rightarrow> bool \<Rightarrow> string list" where
  "dedupe zhCN tags sortFlag =
     (let values = map snd (dedupe_loop [] tags)
      in if sortFlag then jsSort zhCN values else values)"

record TaxonomyRule =
  rule_includes :: "string list option"
  rule_pattern :: "string option"

text \<open>
  \<open>TaxonomyRules\<close>: the categories of the taxonomy in the order its JSON text declares
  them. \<open>JSON.parse\<close> makes the object from them, and \<open>classifyTags\<close> walks
  \<open>Object.entries\<close> of that object.
\<close>

type_synonym TaxonomyRules = "(string \<times> TaxonomyRule) list"

text \<open>
  \<open>new RegExp(pattern, 'i')\<close> is a parameter: \<open>None\<close> when the constructor throws
  (a malformed pattern), otherwise the predicate \<open>regex.test\<close>.
\<close>

type_synonym regexp = "string \<Rightarrow> (string \<Rightarrow> bool) option"

definition includesMatch :: "TaxonomyRule \<Rightarrow> string \<Rightarrow> bool" where
  "includesMatch rule tag =
     (let incl = (case rule_includes rule of None \<Rightarrow> [] | Some xs \<Rightarrow> xs)
      in list_ex (\<lambda>candidate.
           toLowerCase (normalizeTag candidate) = toLowerCase (normalizeTag tag)) incl)"

definition patternMatch :: "regexp \<Rightarrow> TaxonomyRule \<Rightarrow> string \<Rightarrow> bool" where
  "patternMatch rx rule tag =
     (case rule_pattern rule of
        None \<Rightarrow> False
      | Some p \<Rightarrow>
          if p = [] then False
          else (case rx p of None \<Rightarrow> False | Some test \<Rightarrow> test tag))"

text \<open>The inner loop over the categories: the category assigned, \<open>None\<close> when none was.\<close>

fun assignCategory :: "regexp \<Rightarrow> TaxonomyRules \<Rightarrow> string \<Rightarrow> string option" where
  "assignCategory rx [] tag = None"
| "assignCategory rx ((category, rule) # rest) tag =
     (if includesMatch rule tag then Some category
      else if patternMatch rx rule tag then Some category
      else assignCategory rx rest tag)"

fun classify_loop :: "regexp \<Rightarrow> TaxonomyRules \<Rightarrow> (string \<rightharpoonup> string) \<Rightarrow> string list
    \<Rightarrow> (string \<rightharpoonup> string)" where
  "classify_loop rx rules classification [] = classification"
| "classify_loop rx rules classification (tag # tags) =
     (case assignCategory rx rules tag of
        Some category \<Rightarrow> classify_loop rx rules (classification(tag \<mapsto> category)) tags
      | None \<Rightarrow> classify_loop rx rules (classification(tag \<mapsto> ''uncategorized'')) tags)"

definition classifyTags :: "regexp \<Rightarrow> string list \<Rightarrow> TaxonomyRules option \<Rightarrow> (string \<rightharpoonup> string)" where
  "classifyTags rx tags taxonomyRules =
     (case taxonomyRules of
        None \<Rightarrow> map_of (map (\<lambda>tag. (tag, ''uncategorized'')) tags)
      | Some rules \<Rightarrow> classify_loop rx (fromEntries rules) Map.empty tags)"

record TagSyncConfig =
  sortTags :: bool
  taxonomyRules :: "TaxonomyRules option"
  apiKey :: string
  dryRun :: bool
  filter_cfg :: string

record MergeResult =
  tags :: "string list"
  added :: "string list"
  classification :: "string \<rightharpoonup> string"

definition mergeTags :: "comparator \<Rightarrow> regexp \<Rightarrow> string list \<Rightarrow> string list \<Rightarrow> string list option
    \<Rightarrow> TagSyncConfig \<Rightarrow> MergeResult" where
  "mergeTags zhCN rx fromSource recommended historical config =
     (let historyPart = (case historical of None \<Rightarrow> [] | Some h \<Rightarrow> dedupe zhCN h False);
          sourcePart = dedupe zhCN fromSource False;
          ordered = historyPart @ sourcePart @ recommended;
          unique = dedupe zhCN ordered (sortTags config);
          existingSet = set (map (\<lambda>tag. toLowerCase (normalizeTag tag)) (historyPart @ sourcePart));
          added = filter (\<lambda>tag. toLowerCase (normalizeTag tag) \<notin> existingSet) unique;
          classification = classifyTags rx unique (taxonomyRules config)
      in \<lparr>tags = unique, added = added, classification = classification\<rparr>)"

section \<open>frontmatter.ts\<close>

record LoadedPost =
  relativePath :: string
  frontMatterTags :: "string list"

text \<open>
  \<open>frontMatterTags\<close> is \<open>ensureArray(data.tags)\<close>, which the loader stores and the
  synchronizer computes again from the same front matter.
\<close>

fun dedupeTags_loop :: "(string \<times> string) list \<Rightarrow> string list \<Rightarrow> (string \<times> string) list" where
  "dedupeTags_loop seen [] = seen"
| "dedupeTags_loop seen (raw # rest) =
     (let trimmed = trim raw in
      if trimmed = [] then dedupeTags_loop seen rest
      else let key = toLowerCase trimmed in
        if map_of seen key = None then dedupeTags_loop (seen @ [(key, trimmed)]) rest
        else dedupeTags_loop seen rest)"

definition dedupeTags :: "comparator \<Rightarrow> string list \<Rightarrow> bool \<Rightarrow> string list" where
  "dedupeTags zhCN tagList sortFlag =
     (let normalized = map snd (dedupeTags_loop [] tagList)
      in if sortFlag then jsSort zhCN normalized else normalized)"

fun arraysEqual :: "string list \<Rightarrow> string list \<Rightarrow> bool" where
  "arraysEqual a b = (if length a \<noteq> length b then False else list_all2 (=) a b)"

definition toPosix :: "char \<Rightarrow> string \<Rightarrow> string" where
  \<comment> \<open>\<open>filePath.split(path.sep).join('/')\<close>; \<open>sep\<close> is the host's separator\<close>
  "toPosix sep filePath = map (\<lambda>c. if c = sep then CHR ''/'' else c) filePath"

record FrontmatterSyncOptions =
  opt_dryRun :: bool
  opt_filter :: string
  opt_includeDrafts :: bool
  opt_sortTags :: bool

record FrontmatterSyncResult =
  updated :: "string list"
  unchanged :: "string list"
  missing :: "string list"
  filteredOut :: "string list"
  totalEntries :: nat

type_synonym TagsMap = "(string \<times> string list) list"

definition postMap :: "char \<Rightarrow> LoadedPost list \<Rightarrow> (string \<rightharpoonup> LoadedPost)" where
  \<comment> \<open>\<open>new Map(posts.map((post) => [toPosix(post.relativePath), post]))\<close>: a later post replaces an earlier one\<close>
  "postMap sep posts = map_of (rev (map (\<lambda>post. (toPosix sep (relativePath post), post)) posts))"

text \<open>
  The body of the loop over the entries. \<open>fileExists\<close> stands for
  \<open>fileExists(path.resolve(config.workspaceRoot, relativePath))\<close>, the state of the disk.
  The rewrite of the document's front matter is not part of the model; only the report is.
\<close>

definition syncEntry :: "char \<Rightarrow> comparator \<Rightarrow> (string \<Rightarrow> bool) \<Rightarrow> LoadedPost list
    \<Rightarrow> FrontmatterSyncOptions \<Rightarrow> string \<times> string list \<Rightarrow> FrontmatterSyncResult
    \<Rightarrow> FrontmatterSyncResult" where
  "syncEntry sep zhCN fileExists posts options entry r =
     (let rawPath = fst entry; tagList = snd entry;
          filterApplied = (length (trim (opt_filter options)) > 0);
          rp = toPosix sep rawPath
      in case postMap sep posts rp of
           None \<Rightarrow>
             if filterApplied then r\<lparr>filteredOut := filteredOut r @ [rp]\<rparr>
             else if fileExists rp then r\<lparr>filteredOut := filteredOut r @ [rp]\<rparr>
             else r\<lparr>missing := missing r @ [rp]\<rparr>
         | Some post \<Rightarrow>
             let expectedTags = dedupeTags zhCN tagList (opt_sortTags options);
                 currentTags = dedupeTags zhCN (frontMatterTags post) (opt_sortTags options)
             in if arraysEqual expectedTags currentTags then r\<lparr>unchanged := unchanged r @ [rp]\<rparr>
                else r\<lparr>updated := updated r @ [rp]\<rparr>)"

definition syncFrontmatterFromTags :: "char \<Rightarrow> comparator \<Rightarrow> (string \<Rightarrow> bool) \<Rightarrow> TagsMap
    \<Rightarrow> LoadedPost list \<Rightarrow> FrontmatterSyncOptions \<Rightarrow> FrontmatterSyncResult" where
  "syncFrontmatterFromTags sep zhCN fileExists tagsMap posts options =
     (let entries = tagsMap; n = length entries
      in if n = 0
         then \<lparr>updated = [], unchanged = [], missing = [], filteredOut = [], totalEntries = 0\<rparr>
         else fold (syncEntry sep zhCN fileExists posts options) entries
                \<lparr>updated = [], unchanged = [], missing = [], filteredOut = [], totalEntries = n\<rparr>)"

section \<open>llm.ts\<close>

datatype jsError = Error string | HttpError nat string

text \<open>
  What one \<open>fetch\<close> of the chat-completion endpoint does: the promise rejects (connection
  error, or the abort on timeout), the status is not a success, the body is not JSON, or
  the answer arrives with \<open>choices[0].message.content\<close> (the empty string when absent).
\<close>

datatype fetch_outcome =
    FetchRejected string
  | HttpNotOk nat string
  | BodyNotJson string
  | HttpOk string

record LlmResponse =
  resp_tags :: "string list"
  resp_raw :: "string option"
  resp_error :: "jsError option"

text \<open>
  \<open>callChatCompletion\<close>: every exception of the request is caught inside and returned in
  the \<open>error\<close> field. \<open>parseTagsFromContent\<close> (a regular expression and \<open>JSON.parse\<close>) is a
  parameter.
\<close>

definition callChatCompletion :: "(string \<Rightarrow> string list) \<Rightarrow> TagSyncConfig \<Rightarrow> fetch_outcome
    \<Rightarrow> LlmResponse" where
  "callChatCompletion parseTagsFromContent config outcome =
     (if apiKey config = []
      then \<lparr>resp_tags = [], resp_raw = None, resp_error = Some (Error ''Missing TAG_SYNC_API_KEY'')\<rparr>
      else case outcome of
          HttpOk content \<Rightarrow>
            \<lparr>resp_tags = parseTagsFromContent content, resp_raw = Some content, resp_error = None\<rparr>
        | HttpNotOk status body \<Rightarrow>
            \<lparr>resp_tags = [], resp_raw = None, resp_error = Some (HttpError status body)\<rparr>
        | FetchRejected message \<Rightarrow>
            \<lparr>resp_tags = [], resp_raw = None, resp_error = Some (Error message)\<rparr>
        | BodyNotJson message \<Rightarrow>
            \<lparr>resp_tags = [], resp_raw = None, resp_error = Some (Error message)\<rparr>)"

text \<open>
  The state of \<open>generateTags\<close>: its two result maps, its copy of the historical tags, the
  delays slept so far (milliseconds, in order) and the state the completion callback works
  on. The callback returns its new state and the exception it threw, if any.
\<close>

record 'cb GenState =
  results :: "string \<rightharpoonup> LlmResponse"
  merges :: "string \<rightharpoonup> MergeResult"
  historicalTagsMap :: "string \<rightharpoonup> string list"
  delays :: "nat list"
  cbState :: 'cb

type_synonym 'cb callback = "LoadedPost \<Rightarrow> MergeResult \<Rightarrow> 'cb \<Rightarrow> 'cb \<times> jsError option"

record 'cb GenEnv =
  env_zhCN :: comparator
  env_regexp :: regexp
  env_parse :: "string \<Rightarrow> string list"
  env_fetch :: "string \<Rightarrow> nat \<Rightarrow> fetch_outcome"
  env_config :: TagSyncConfig
  env_retries :: "int option"
  env_onPostProcessed :: "'cb callback"

text \<open>
  The \<open>while (attempt <= retries)\<close> loop of one document and the fallback after it.
  \<open>env_fetch path attempt\<close> is what the network does on that attempt. The result is
  \<open>Inl\<close> when an exception leaves the document's task.
\<close>

function attempts :: "'cb GenEnv \<Rightarrow> LoadedPost \<Rightarrow> string list \<Rightarrow> int \<Rightarrow> nat \<Rightarrow> jsError option
    \<Rightarrow> 'cb GenState \<Rightarrow> jsError + 'cb GenState" where
  "attempts env post historyTags retries attempt lastError st =
     (if int attempt \<le> retries then
        (let st1 = (if attempt > 0
                    then st\<lparr>delays := delays st @ [min (2000 * attempt) 5000]\<rparr> else st);
             response = callChatCompletion (env_parse env) (env_config env)
                          (env_fetch env (relativePath post) attempt);
             st2 = st1\<lparr>results := (results st1)(relativePath post \<mapsto> response)\<rparr>;
             merged = mergeTags (env_zhCN env) (env_regexp env) (frontMatterTags post)
                        (resp_tags response) (Some historyTags) (env_config env);
             st3 = st2\<lparr>merges := (merges st2)(relativePath post \<mapsto> merged),
                       historicalTagsMap := (historicalTagsMap st2)(relativePath post \<mapsto> tags merged)\<rparr>
         in case env_onPostProcessed env post merged (cbState st3) of
              (cb, None) \<Rightarrow> Inr (st3\<lparr>cbState := cb\<rparr>)
            | (cb, Some e) \<Rightarrow>
                attempts env post historyTags retries (attempt + 1) (Some e) (st3\<lparr>cbState := cb\<rparr>))
      else
        (case lastError of
           None \<Rightarrow> Inr st
         | Some e \<Rightarrow>
            (let st1 = st\<lparr>results := (results st)(relativePath post \<mapsto>
                           \<lparr>resp_tags = [], resp_raw = None, resp_error = Some e\<rparr>)\<rparr>;
                 fallbackMerge = mergeTags (env_zhCN env) (env_regexp env) (frontMatterTags post)
                                   [] (Some historyTags) (env_config env);
                 st2 = st1\<lparr>merges := (merges st1)(relativePath post \<mapsto> fallbackMerge),
                           historicalTagsMap :=
                             (historicalTagsMap st1)(relativePath post \<mapsto> tags fallbackMerge)\<rparr>
             in case env_onPostProcessed env post fallbackMerge (cbState st2) of
                  (cb, None) \<Rightarrow> Inr (st2\<lparr>cbState := cb\<rparr>)
                | (cb, Some e') \<Rightarrow> Inl e')))"
  by pat_completeness auto
termination
  by (relation "measure (\<lambda>(env, post, historyTags, retries, attempt, lastError, st).
        nat (retries + 1 - int attempt))") auto

declare attempts.simps [simp del]

definition processPost :: "'cb GenEnv \<Rightarrow> LoadedPost \<Rightarrow> 'cb GenState \<Rightarrow> jsError + 'cb GenState" where
  "processPost env post st =
     (let historyTags = (case historicalTagsMap st (relativePath post) of
                           None \<Rightarrow> [] | Some h \<Rightarrow> h);
          retries = (case env_retries env of None \<Rightarrow> 2 | Some r \<Rightarrow> r)
      in attempts env post historyTags retries 0 None st)"

text \<open>
  The documents one after the other, as the limiter runs them with \<open>maxConcurrency = 1\<close>;
  an exception that leaves one task rejects the whole call.
\<close>

fun processAll :: "'cb GenEnv \<Rightarrow> LoadedPost list \<Rightarrow> 'cb GenState \<Rightarrow> jsError + 'cb GenState" where
  "processAll env [] st = Inr st"
| "processAll env (post # posts) st =
     (case processPost env post st of
        Inl e \<Rightarrow> Inl e
      | Inr st' \<Rightarrow> processAll env posts st')"

definition generateTags :: "'cb GenEnv \<Rightarrow> LoadedPost list \<Rightarrow> (string \<rightharpoonup> string list) \<Rightarrow> 'cb
    \<Rightarrow> jsError + 'cb GenState" where
  "generateTags env posts historicalTags cb0 =
     (if apiKey (env_config env) = [] then Inl (Error ''TAG_SYNC_API_KEY is not set.'')
      else processAll env posts
             \<lparr>results = Map.empty, merges = Map.empty, historicalTagsMap = historicalTags,
              delays = [], cbState = cb0\<rparr>)"

section \<open>index.ts and writer.ts\<close>

definition sortTagsMap :: "comparator \<Rightarrow> TagsMap \<Rightarrow> TagsMap" where
  "sortTagsMap enUS m = fromEntries (jsSort (\<lambda>a b. enUS (fst a) (fst b)) m)"

text \<open>
  What a run leaves behind: the objects given to \<open>writeTagsSnapshot\<close> (each is serialized
  and written), the object given to \<open>writeTagsFile\<close> (written unless the run is a dry
  run), and the index in memory at the end.
\<close>

record RunState =
  tagsMap :: TagsMap
  snapshots :: "TagsMap list"

record RunResult =
  run_snapshots :: "TagsMap list"
  run_writeTagsFile :: "TagsMap option"
  run_tagsMap :: TagsMap

definition scheduleWrite :: "comparator \<Rightarrow> RunState \<Rightarrow> RunState" where
  \<comment> \<open>the writes are chained, so each runs on the index as it is then; a write does not fail\<close>
  "scheduleWrite enUS rs = rs\<lparr>snapshots := snapshots rs @ [sortTagsMap enUS (tagsMap rs)]\<rparr>"

definition onPostProcessed :: "comparator \<Rightarrow> TagSyncConfig \<Rightarrow> RunState callback" where
  "onPostProcessed enUS config post merge rs =
     (let rs1 = rs\<lparr>tagsMap := obj_set (tagsMap rs) (relativePath post) (tags merge)\<rparr>
      in if \<not> dryRun config then (scheduleWrite enUS rs1, None) else (rs1, None))"

definition prune :: "TagSyncConfig \<Rightarrow> LoadedPost list \<Rightarrow> TagsMap \<Rightarrow> TagsMap" where
  \<comment> \<open>lines 180 to 188 of \<open>runGenerate\<close>\<close>
  "prune config posts m =
     (let processedPaths = set (map relativePath posts);
          filterApplied = (filter_cfg config \<noteq> [] \<and> trim (filter_cfg config) \<noteq> [])
      in if \<not> filterApplied
         then fold (\<lambda>key obj. if key \<notin> processedPaths then obj_delete obj key else obj) (map fst m) m
         else m)"

definition writtenFiles :: "TagSyncConfig \<Rightarrow> RunResult \<Rightarrow> TagsMap list" where
  \<comment> \<open>the successive contents of the artifact: \<open>writeTagsFile\<close> writes only when the run is not a dry run\<close>
  "writtenFiles config r =
     run_snapshots r @
     (case run_writeTagsFile r of None \<Rightarrow> [] | Some m \<Rightarrow> if dryRun config then [] else [m])"

text \<open>
  \<open>runGenerate\<close>. \<open>posts\<close> is what \<open>loadPosts\<close> returned under the configured filter,
  \<open>historicalTags\<close> what \<open>readTagsFile\<close> returned, \<open>forceFull\<close> is \<open>args.full ?? false\<close>.
  \<open>None\<close>: the early return when no post matches.
\<close>

definition runGenerate :: "comparator \<Rightarrow> RunState GenEnv \<Rightarrow> bool \<Rightarrow> LoadedPost list \<Rightarrow> TagsMap
    \<Rightarrow> jsError + RunResult option" where
  "runGenerate enUS env forceFull posts historicalTags =
     (let config = env_config env in
      if length posts = 0 then Inr None
      else
        (let rs0 = \<lparr>tagsMap = historicalTags, snapshots = []\<rparr>;
             postsToProcess = (if forceFull then posts
                               else filter (\<lambda>post. map_of historicalTags (relativePath post) = None) posts);
             generated = (if length postsToProcess > 0
                          then map_sum id cbState
                                 (generateTags (env\<lparr>env_retries := None,
                                                    env_onPostProcessed := onPostProcessed enUS config\<rparr>)
                                    postsToProcess (map_of historicalTags) rs0)
                          else Inr rs0)
         in case generated of
              Inl e \<Rightarrow> Inl e
            | Inr rs1 \<Rightarrow>
               (let rs2 = rs1\<lparr>tagsMap := prune config posts (tagsMap rs1)\<rparr>;
                    sortedTagsMap = sortTagsMap enUS (tagsMap rs2)
                in if dryRun config \<or> length postsToProcess = 0
                   then Inr (Some \<lparr>run_snapshots = snapshots rs2,
                                   run_writeTagsFile = Some sortedTagsMap,
                                   run_tagsMap = tagsMap rs2\<rparr>)
                   else Inr (Some \<lparr>run_snapshots = snapshots (scheduleWrite enUS rs2),
                                   run_writeTagsFile = None,
                                   run_tagsMap = tagsMap rs2\<rparr>))))"

section \<open>Notions of the specification\<close>

text \<open>
  The words of a tag: its maximal runs of characters that are neither white space nor
  an underscore nor a slash. Joining them with single spaces is what the specification
  calls collapsing the runs and trimming.
\<close>

definition nonSep :: "char \<Rightarrow> bool" where
  "nonSep c = (\<not> isSep c)"

function splitWords :: "string \<Rightarrow> string list" where
  "splitWords [] = []"
| "splitWords (c # cs) =
     (if isSep c then splitWords cs
      else (c # takeWhile nonSep cs) # splitWords (dropWhile nonSep cs))"
  by pat_completeness auto
termination
  by (relation "measure length") (auto simp: less_Suc_eq_le length_dropWhile_le)

fun joinWords :: "string list \<Rightarrow> string" where
  "joinWords [] = []"
| "joinWords [w] = w"
| "joinWords (w # v # ws) = w @ CHR '' '' # joinWords (v # ws)"

text \<open>
  The first occurrence under a key wins, for the value kept and for its position: an
  element stays where it is and removes every later element with its key.
\<close>

primrec firstBy :: "('a \<Rightarrow> 'k) \<Rightarrow> 'a list \<Rightarrow> 'a list" where
  "firstBy k [] = []"
| "firstBy k (x # xs) = x # filter (\<lambda>y. k y \<noteq> k x) (firstBy k xs)"

definition orderedUnion :: "string list \<Rightarrow> string list" where
  \<comment> \<open>the first case-insensitive occurrence wins\<close>
  "orderedUnion xs = firstBy toLowerCase xs"

definition normalizedTags :: "string list \<Rightarrow> string list" where
  \<comment> \<open>each tag normalized, the empty results dropped\<close>
  "normalizedTags xs = filter (\<lambda>n. n \<noteq> []) (map normalizeTag xs)"

definition tagKey :: "string \<Rightarrow> string" where
  "tagKey t = toLowerCase (normalizeTag t)"

definition trimmedTags :: "string list \<Rightarrow> string list" where
  \<comment> \<open>each tag trimmed, the empty results dropped\<close>
  "trimmedTags xs = filter (\<lambda>n. n \<noteq> []) (map trim xs)"

definition entryPath :: "char \<Rightarrow> string \<times> string list \<Rightarrow> string" where
  \<comment> \<open>the identifier an entry of the index refers to\<close>
  "entryPath sep entry = toPosix sep (fst entry)"

definition isFailure :: "fetch_outcome \<Rightarrow> bool" where
  \<comment> \<open>a transport or HTTP failure of one attempt\<close>
  "isFailure outcome = (case outcome of HttpOk content \<Rightarrow> False | _ \<Rightarrow> True)"

definition historyOf :: "(string \<rightharpoonup> string list) \<Rightarrow> LoadedPost \<Rightarrow> string list" where
  \<comment> \<open>the historical tags of a document, none when the index has no entry\<close>
  "historyOf h post = (case h (relativePath post) of None \<Rightarrow> [] | Some ts \<Rightarrow> ts)"

definition firstResponse :: "'cb GenEnv \<Rightarrow> LoadedPost \<Rightarrow> LlmResponse" where
  \<comment> \<open>the answer of the first attempt for a document\<close>
  "firstResponse env post =
     callChatCompletion (env_parse env) (env_config env) (env_fetch env (relativePath post) 0)"

definition healthy :: "'cb callback \<Rightarrow> bool" where
  \<comment> \<open>the completion callback never throws\<close>
  "healthy cb = (\<forall>post merge st. snd (cb post merge st) = None)"

definition postsToProcess :: "bool \<Rightarrow> LoadedPost list \<Rightarrow> TagsMap \<Rightarrow> LoadedPost list" where
  \<comment> \<open>the documents a run generates tags for\<close>
  "postsToProcess forceFull posts historicalTags =
     (if forceFull then posts
      else filter (\<lambda>post. map_of historicalTags (relativePath post) = None) posts)"

definition plainNames :: "(string \<times> 'v) list \<Rightarrow> bool" where
  \<comment> \<open>the names are distinct and none of them is an array index\<close>
  "plainNames entries = (distinct (map fst entries) \<and> \<not> list_ex isArrayIndex (map fst entries))"

text \<open>
  Classification as the specification words it: the first category, in declared order,
  that has a matching rule, and \<open>uncategorized\<close> when there is none. \<open>claimedMatch\<close> is
  the rule as claimed (an include equal to the tag up to case, or a well-formed pattern
  that matches the tag); \<open>ruleMatches\<close> is the rule of the code.
\<close>

definition firstCategory :: "(TaxonomyRule \<Rightarrow> string \<Rightarrow> bool) \<Rightarrow> TaxonomyRules \<Rightarrow> string \<Rightarrow> string" where
  "firstCategory matches rules tag =
     (case find (\<lambda>entry. matches (snd entry) tag) rules of
        None \<Rightarrow> ''uncategorized''
      | Some entry \<Rightarrow> fst entry)"

definition claimedMatch :: "regexp \<Rightarrow> TaxonomyRule \<Rightarrow> string \<Rightarrow> bool" where
  "claimedMatch rx rule tag =
     (list_ex (\<lambda>candidate. toLowerCase candidate = toLowerCase tag)
        (case rule_includes rule of None \<Rightarrow> [] | Some xs \<Rightarrow> xs)
      \<or> (case rule_pattern rule of
            None \<Rightarrow> False
          | Some p \<Rightarrow> (case rx p of None \<Rightarrow> False | Some test \<Rightarrow> test tag)))"

definition ruleMatches :: "regexp \<Rightarrow> TaxonomyRule \<Rightarrow> string \<Rightarrow> bool" where
  "ruleMatches rx rule tag =
     (list_ex (\<lambda>candidate. tagKey candidate = tagKey tag)
        (case rule_includes rule of None \<Rightarrow> [] | Some xs \<Rightarrow> xs)
      \<or> (case rule_pattern rule of
            None \<Rightarrow> False
          | Some p \<Rightarrow> p \<noteq> [] \<and> (case rx p of None \<Rightarrow> False | Some test \<Rightarrow> test tag)))"

lemma isSpace_isSep: "isSpace c \<Longrightarrow> isSep c"
  by (simp add: isSep_def)

lemma isSep_space [simp]: "isSep CHR '' ''" "isSpace CHR '' ''"
  by (simp_all add: isSep_def isSpace_def)

lemma collapse_prefix:
  "\<forall>c\<in>set w. \<not> P c \<Longrightarrow> collapse P (w @ r) = w @ collapse P r"
  by (induction w) auto

lemma dropWhile_start: "dropWhile P xs = [] \<or> \<not> P (hd (dropWhile P xs))"
  by (metis hd_dropWhile)

lemma collapse_start:
  "t = [] \<or> \<not> isSep (hd t) \<Longrightarrow> dropWhile isSpace (collapse isSep t) = collapse isSep t"
  by (cases t) (auto dest: isSpace_isSep)

lemma collapse_stable: "collapse isSpace (collapse isSep t) = collapse isSep t"
proof (induction isSep t rule: collapse.induct)
  case 1
  show ?case by simp
next
  case (2 c cs)
  show ?case
  proof (cases "isSep c")
    case True
    have "dropWhile isSpace (collapse isSep (dropWhile isSep cs)) = collapse isSep (dropWhile isSep cs)"
      by (rule collapse_start) (rule dropWhile_start)
    with True 2 show ?thesis by simp
  next
    case False
    then have "\<not> isSpace c" by (auto dest: isSpace_isSep)
    with False 2 show ?thesis by simp
  qed
qed

lemma trimStart_collapse: "trimStart (collapse isSep t) = collapse isSep (dropWhile isSep t)"
proof (cases t)
  case Nil
  then show ?thesis by (simp add: trimStart_def)
next
  case (Cons c cs)
  show ?thesis
  proof (cases "isSep c")
    case True
    have "dropWhile isSpace (collapse isSep (dropWhile isSep cs)) = collapse isSep (dropWhile isSep cs)"
      by (rule collapse_start) (rule dropWhile_start)
    with True Cons show ?thesis by (simp add: trimStart_def)
  next
    case False
    then have "\<not> isSpace c" by (auto dest: isSpace_isSep)
    with False Cons show ?thesis by (simp add: trimStart_def)
  qed
qed

lemma trimEnd_append:
  "trimEnd (a @ b) = (if trimEnd b = [] then trimEnd a else a @ trimEnd b)"
  by (auto simp: trimEnd_def dropWhile_append)

lemma trimEnd_id: "\<forall>c\<in>set w. \<not> isSpace c \<Longrightarrow> trimEnd w = w"
  by (cases "rev w") (auto simp: trimEnd_def)

lemma trimEnd_Cons_space:
  "trimEnd (CHR '' '' # x) = (if trimEnd x = [] then [] else CHR '' '' # trimEnd x)"
  using trimEnd_append [of "[CHR '' '']" x] by (simp add: trimEnd_def)

lemma splitWords_dropWhile: "splitWords (dropWhile isSep t) = splitWords t"
  by (induction t) auto

lemma splitWords_good:
  "\<forall>w\<in>set (splitWords t). w \<noteq> [] \<and> (\<forall>c\<in>set w. nonSep c)"
proof (induction t rule: splitWords.induct)
  case 1
  show ?case by simp
next
  case (2 c cs)
  show ?case
  proof (cases "isSep c")
    case True
    with 2 show ?thesis by simp
  next
    case False
    have "\<forall>d\<in>set (takeWhile nonSep cs). nonSep d"
      by (blast dest: set_takeWhileD)
    with 2(2) [OF False] False show ?thesis by (simp add: nonSep_def [of c])
  qed
qed

lemma joinWords_Nil_iff: "\<forall>w\<in>set ws. w \<noteq> [] \<Longrightarrow> joinWords ws = [] \<longleftrightarrow> ws = []"
  by (induction ws rule: joinWords.induct) auto

lemma joinWords_Cons: "joinWords (w # ws) = (if ws = [] then w else w @ CHR '' '' # joinWords ws)"
  by (cases ws) auto

lemma trimEnd_collapse:
  "trimEnd (collapse isSep (dropWhile isSep t)) = joinWords (splitWords t)"
proof (induction t rule: splitWords.induct)
  case 1
  show ?case by (simp add: trimEnd_def)
next
  case (2 c cs)
  show ?case
  proof (cases "isSep c")
    case True
    with 2 show ?thesis by simp
  next
    case False
    define w where "w = c # takeWhile nonSep cs"
    define r where "r = dropWhile nonSep cs"
    have t: "c # cs = w @ r" by (simp add: w_def r_def)
    have "\<forall>d\<in>set (takeWhile nonSep cs). nonSep d"
      by (blast dest: set_takeWhileD)
    then have w: "\<forall>d\<in>set w. \<not> isSep d" using False by (simp add: w_def nonSep_def)
    then have wsp: "\<forall>d\<in>set w. \<not> isSpace d" by (blast dest: isSpace_isSep)
    have IH: "trimEnd (collapse isSep (dropWhile isSep r)) = joinWords (splitWords r)"
      using 2(2) [OF False] by (simp add: r_def)
    have good: "\<forall>v\<in>set (splitWords r). v \<noteq> []" using splitWords_good by blast
    have sw: "splitWords (c # cs) = w # splitWords r" using False by (simp add: w_def r_def)
    have col: "collapse isSep (c # cs) = w @ collapse isSep r"
      unfolding t by (rule collapse_prefix) (rule w)
    show ?thesis
    proof (cases r)
      case Nil
      with False sw col wsp show ?thesis by (simp add: trimEnd_id)
    next
      case (Cons s rs)
      have "isSep s" using Cons dropWhile_start [of nonSep cs] by (simp add: r_def nonSep_def)
      then have cr: "collapse isSep r = CHR '' '' # collapse isSep (dropWhile isSep r)"
        using Cons by simp
      show ?thesis
        using False sw col cr IH joinWords_Nil_iff [OF good] wsp
        by (simp add: trimEnd_append trimEnd_Cons_space trimEnd_id joinWords_Cons)
    qed
  qed
qed

lemma normalizeTag_words: "normalizeTag t = joinWords (splitWords t)"
proof (cases "t = []")
  case True
  then show ?thesis by (simp add: normalizeTag_def)
next
  case False
  then show ?thesis
    by (simp add: normalizeTag_def trim_def collapse_stable trimStart_collapse trimEnd_collapse)
qed

lemma takeWhile_word: "\<forall>c\<in>set w. nonSep c \<Longrightarrow> takeWhile nonSep (w @ CHR '' '' # rest) = w"
  by (induction w) (simp_all add: nonSep_def [of "CHR '' ''"])

lemma dropWhile_word:
  "\<forall>c\<in>set w. nonSep c \<Longrightarrow> dropWhile nonSep (w @ CHR '' '' # rest) = CHR '' '' # rest"
  by (induction w) (simp_all add: nonSep_def [of "CHR '' ''"])

lemma splitWords_word:
  assumes "w \<noteq> []" "\<forall>c\<in>set w. nonSep c"
  shows "splitWords (w @ CHR '' '' # rest) = w # splitWords rest"
proof (cases w)
  case Nil
  with assms show ?thesis by simp
next
  case (Cons c cs)
  with assms have c: "\<not> isSep c" and cs: "\<forall>d\<in>set cs. nonSep d" by (simp_all add: nonSep_def)
  show ?thesis unfolding Cons using c by (simp add: takeWhile_word [OF cs] dropWhile_word [OF cs])
qed

lemma splitWords_single:
  assumes "w \<noteq> []" "\<forall>c\<in>set w. nonSep c"
  shows "splitWords w = [w]"
proof (cases w)
  case Nil
  with assms show ?thesis by simp
next
  case (Cons c cs)
  with assms have c: "\<not> isSep c" and cs: "\<forall>d\<in>set cs. nonSep d" by (simp_all add: nonSep_def)
  from cs have tw: "takeWhile nonSep cs = cs" by (simp add: takeWhile_eq_all_conv)
  from cs have dw: "dropWhile nonSep cs = []" by (induction cs) simp_all
  from c show ?thesis unfolding Cons by (simp add: tw dw)
qed

lemma splitWords_joinWords:
  "\<forall>w\<in>set ws. w \<noteq> [] \<and> (\<forall>c\<in>set w. nonSep c) \<Longrightarrow> splitWords (joinWords ws) = ws"
proof (induction ws rule: joinWords.induct)
  case 1
  show ?case by simp
next
  case (2 w)
  then show ?case by (simp add: splitWords_single)
next
  case (3 w v ws)
  then have "splitWords (w @ CHR '' '' # joinWords (v # ws)) = w # splitWords (joinWords (v # ws))"
    by (intro splitWords_word) simp_all
  with 3 show ?case by simp
qed

lemma normalizeTag_idem: "normalizeTag (normalizeTag t) = normalizeTag t"
  unfolding normalizeTag_words
  by (subst splitWords_joinWords) (rule splitWords_good, rule refl)

lemma lowerChar_space [simp]: "lowerChar CHR '' '' = CHR '' ''"
  by (simp add: lowerChar_def)

lemma toLowerCase_joinWords: "toLowerCase (joinWords ws) = joinWords (map toLowerCase ws)"
  by (induction ws rule: joinWords.induct) (simp_all add: toLowerCase_def)

section \<open>First occurrence wins\<close>

lemma set_firstBy: "set (firstBy k xs) \<subseteq> set xs"
  by (induction xs) auto

lemma keys_firstBy: "k ` set (firstBy k xs) = k ` set xs"
proof (induction xs)
  case Nil
  show ?case by simp
next
  case (Cons x xs)
  have "k ` set (filter (\<lambda>y. k y \<noteq> k x) (firstBy k xs)) = k ` set (firstBy k xs) - {k x}"
    by auto
  with Cons show ?case by auto
qed

lemma distinct_firstBy: "distinct (map k (firstBy k xs))"
  by (induction xs) (auto simp: distinct_map_filter)

lemma filter_firstBy:
  "filter (\<lambda>y. P (k y)) (firstBy k xs) = firstBy k (filter (\<lambda>y. P (k y)) xs)"
proof (induction xs)
  case Nil
  show ?case by simp
next
  case (Cons x xs)
  show ?case
  proof (cases "P (k x)")
    case True
    have "filter (\<lambda>y. P (k y)) (filter (\<lambda>y. k y \<noteq> k x) (firstBy k xs))
        = filter (\<lambda>y. k y \<noteq> k x) (filter (\<lambda>y. P (k y)) (firstBy k xs))"
      by (simp add: conj_commute)
    with True Cons show ?thesis by simp
  next
    case False
    then have "filter (\<lambda>y. P (k y)) (filter (\<lambda>y. k y \<noteq> k x) (firstBy k xs))
        = filter (\<lambda>y. P (k y)) (firstBy k xs)"
      by (auto intro: filter_cong)
    with False Cons show ?thesis by simp
  qed
qed

lemma firstBy_append:
  "firstBy k (a @ b) = firstBy k a @ filter (\<lambda>y. k y \<notin> k ` set a) (firstBy k b)"
proof (induction a)
  case Nil
  show ?case by simp
next
  case (Cons x a)
  have "filter (\<lambda>y. k y \<noteq> k x) (filter (\<lambda>y. k y \<notin> k ` set a) (firstBy k b))
      = filter (\<lambda>y. k y \<notin> k ` set (x # a)) (firstBy k b)"
    by (auto intro: filter_cong)
  with Cons show ?case by simp
qed

lemma firstBy_distinct: "distinct (map k xs) \<Longrightarrow> firstBy k xs = xs"
proof (induction xs)
  case Nil
  show ?case by simp
next
  case (Cons x xs)
  from Cons.prems have "k x \<notin> k ` set xs" by simp
  then have "\<forall>y\<in>set xs. k y \<noteq> k x" by (metis image_eqI)
  then have "filter (\<lambda>y. k y \<noteq> k x) xs = xs" by (simp add: filter_id_conv)
  with Cons show ?case by simp
qed

lemma firstBy_idem: "firstBy k (firstBy k xs) = firstBy k xs"
  by (rule firstBy_distinct) (rule distinct_firstBy)

lemma firstBy_absorb_left: "firstBy k (firstBy k a @ b) = firstBy k (a @ b)"
  by (simp add: firstBy_append firstBy_idem keys_firstBy)

lemma firstBy_absorb_mid: "firstBy k (a @ firstBy k b @ c) = firstBy k (a @ b @ c)"
  by (simp add: firstBy_append [of k a] firstBy_absorb_left)

section \<open>The loop of dedupe\<close>

lemma normalizedTags_append: "normalizedTags (a @ b) = normalizedTags a @ normalizedTags b"
  by (simp add: normalizedTags_def)

lemma normalizedTags_fix:
  "\<forall>n\<in>set ys. normalizeTag n = n \<and> n \<noteq> [] \<Longrightarrow> normalizedTags ys = ys"
  by (induction ys) (simp_all add: normalizedTags_def)

lemma normalizedTags_normal: "\<forall>n\<in>set (normalizedTags xs). normalizeTag n = n \<and> n \<noteq> []"
  by (auto simp: normalizedTags_def normalizeTag_idem)

lemma dedupe_loop_spec:
  "map snd (dedupe_loop seen ts) =
     map snd seen @ firstBy toLowerCase
       (filter (\<lambda>n. toLowerCase n \<notin> fst ` set seen) (normalizedTags ts))"
proof (induction ts arbitrary: seen)
  case Nil
  show ?case by (simp add: normalizedTags_def)
next
  case (Cons t ts)
  define n where "n = normalizeTag t"
  have nt: "normalizedTags (t # ts) = (if n = [] then normalizedTags ts else n # normalizedTags ts)"
    by (simp add: normalizedTags_def n_def)
  show ?case
  proof (cases "n = []")
    case True
    with Cons nt show ?thesis by (simp add: n_def)
  next
    case False
    show ?thesis
    proof (cases "toLowerCase n \<in> fst ` set seen")
      case True
      then have "map_of seen (toLowerCase n) \<noteq> None" by (simp add: map_of_eq_None_iff)
      with True False Cons [of seen] nt show ?thesis by (auto simp: n_def [symmetric] Let_def)
    next
      case notin: False
      then have none: "map_of seen (toLowerCase n) = None" by (simp add: map_of_eq_None_iff)
      have step: "dedupe_loop seen (t # ts) = dedupe_loop (seen @ [(toLowerCase n, n)]) ts"
        using False none by (simp add: n_def [symmetric] Let_def)
      have f1: "filter (\<lambda>m. toLowerCase m \<notin> fst ` set (seen @ [(toLowerCase n, n)])) (normalizedTags ts)
          = filter (\<lambda>m. toLowerCase m \<noteq> toLowerCase n)
              (filter (\<lambda>m. toLowerCase m \<notin> fst ` set seen) (normalizedTags ts))"
        by (auto intro: filter_cong)
      have f2: "firstBy toLowerCase (filter (\<lambda>m. toLowerCase m \<noteq> toLowerCase n) zs)
          = filter (\<lambda>m. toLowerCase m \<noteq> toLowerCase n) (firstBy toLowerCase zs)" for zs
        using filter_firstBy [of "\<lambda>key. key \<noteq> toLowerCase n" toLowerCase zs] by simp
      show ?thesis
        unfolding step Cons [of "seen @ [(toLowerCase n, n)]"] f1 f2
        using False notin nt by simp
    qed
  qed
qed

lemma dedupe_unsorted: "dedupe zhCN xs False = orderedUnion (normalizedTags xs)"
  using dedupe_loop_spec [of "[]" xs] by (simp add: dedupe_def orderedUnion_def)

lemma dedupe_sorted: "dedupe zhCN xs True = jsSort zhCN (dedupe zhCN xs False)"
  by (simp add: dedupe_def)

lemma dedupe_normal: "\<forall>n\<in>set (dedupe zhCN xs False). normalizeTag n = n \<and> n \<noteq> []"
proof
  fix n
  assume "n \<in> set (dedupe zhCN xs False)"
  then have "n \<in> set (normalizedTags xs)"
    using set_firstBy [of toLowerCase "normalizedTags xs"]
    by (auto simp: dedupe_unsorted orderedUnion_def)
  then show "normalizeTag n = n \<and> n \<noteq> []"
    using normalizedTags_normal [of xs] by blast
qed

lemma normalizedTags_dedupe: "normalizedTags (dedupe zhCN xs False) = dedupe zhCN xs False"
  by (rule normalizedTags_fix) (rule dedupe_normal)

lemma merge_union:
  "dedupe zhCN (dedupe zhCN h False @ dedupe zhCN own False @ p) False
     = orderedUnion (normalizedTags (h @ own @ p))"
proof -
  have "dedupe zhCN (dedupe zhCN h False @ dedupe zhCN own False @ p) False
      = orderedUnion (dedupe zhCN h False @ dedupe zhCN own False @ normalizedTags p)"
    by (simp add: dedupe_unsorted [of zhCN "_ @ _"] normalizedTags_append normalizedTags_dedupe)
  also have "\<dots> = orderedUnion (normalizedTags h @ normalizedTags own @ normalizedTags p)"
    by (simp add: dedupe_unsorted orderedUnion_def firstBy_absorb_left firstBy_absorb_mid)
  finally show ?thesis by (simp add: normalizedTags_append)
qed

section \<open>The sort\<close>

lemma set_insertBy: "set (insertBy cmp x ys) = insert x (set ys)"
  by (induction ys) auto

lemma set_jsSort: "set (jsSort cmp xs) = set xs"
  by (induction xs) (simp_all add: jsSort_def set_insertBy)

lemma length_insertBy: "length (insertBy cmp x ys) = Suc (length ys)"
  by (induction ys) auto

lemma length_jsSort: "length (jsSort cmp xs) = length xs"
  by (induction xs) (simp_all add: jsSort_def length_insertBy)

lemma sorted_insertBy:
  assumes "consistent cmp" "sorted_wrt (\<lambda>a b. cmp a b \<le> 0) ys"
  shows "sorted_wrt (\<lambda>a b. cmp a b \<le> 0) (insertBy cmp x ys)"
  using assms(2)
proof (induction ys)
  case Nil
  show ?case by simp
next
  case (Cons y ys)
  from assms(1) have total: "cmp a b \<le> 0 \<or> cmp b a \<le> 0" for a b
    unfolding consistent_def by blast
  from assms(1) have trans: "cmp a b \<le> 0 \<Longrightarrow> cmp b c \<le> 0 \<Longrightarrow> cmp a c \<le> 0" for a b c
    unfolding consistent_def by blast
  show ?case
  proof (cases "cmp x y \<le> 0")
    case True
    with Cons.prems trans show ?thesis by auto
  next
    case False
    with total [of x y] have "cmp y x \<le> 0" by simp
    with False Cons show ?thesis by (auto simp: set_insertBy)
  qed
qed

lemma sorted_jsSort: "consistent cmp \<Longrightarrow> sorted_wrt (\<lambda>a b. cmp a b \<le> 0) (jsSort cmp xs)"
  by (induction xs) (simp_all add: jsSort_def sorted_insertBy)

lemma jsSort_sorted_id: "sorted_wrt (\<lambda>a b. cmp a b \<le> 0) xs \<Longrightarrow> jsSort cmp xs = xs"
proof (induction xs)
  case Nil
  show ?case by (simp add: jsSort_def)
next
  case (Cons x xs)
  then have "jsSort cmp xs = xs" by simp
  then have "jsSort cmp (x # xs) = insertBy cmp x xs" by (simp add: jsSort_def)
  with Cons.prems show ?case by (cases xs) simp_all
qed

lemma consistent_codeUnitCompare: "consistent codeUnitCompare"
  unfolding consistent_def codeUnitCompare_def by (auto simp: not_less)

section \<open>The merge\<close>

lemma tags_mergeTags:
  "tags (mergeTags zhCN rx own proposed historical config) =
     dedupe zhCN ((case historical of None \<Rightarrow> [] | Some h \<Rightarrow> dedupe zhCN h False)
                    @ dedupe zhCN own False @ proposed) (sortTags config)"
  by (simp add: mergeTags_def Let_def)

lemma dedupe_Nil: "dedupe zhCN [] False = []"
  by (simp add: dedupe_def)

lemma tags_mergeTags_unsorted:
  "\<not> sortTags config \<Longrightarrow>
   tags (mergeTags zhCN rx own proposed historical config) =
     orderedUnion (normalizedTags ((case historical of None \<Rightarrow> [] | Some h \<Rightarrow> h) @ own @ proposed))"
proof (cases historical)
  case None
  assume "\<not> sortTags config"
  with None merge_union [of zhCN "[]" own proposed] show ?thesis
    by (simp add: tags_mergeTags dedupe_Nil)
next
  case (Some h)
  assume "\<not> sortTags config"
  with Some merge_union [of zhCN h own proposed] show ?thesis
    by (simp add: tags_mergeTags)
qed

lemma tags_mergeTags_sorted:
  "tags (mergeTags zhCN rx own proposed historical (config\<lparr>sortTags := True\<rparr>)) =
     jsSort zhCN (tags (mergeTags zhCN rx own proposed historical (config\<lparr>sortTags := False\<rparr>)))"
  by (simp add: tags_mergeTags dedupe_sorted)

lemma tags_mergeTags_spec:
  "tags (mergeTags zhCN rx own proposed historical config) =
     (let u = orderedUnion (normalizedTags
                ((case historical of None \<Rightarrow> [] | Some h \<Rightarrow> h) @ own @ proposed))
      in if sortTags config then jsSort zhCN u else u)"
proof (cases "sortTags config")
  case False
  then show ?thesis by (simp add: tags_mergeTags_unsorted)
next
  case True
  then have "config = config\<lparr>sortTags := True\<rparr>" by simp
  then have "tags (mergeTags zhCN rx own proposed historical config) =
      jsSort zhCN (tags (mergeTags zhCN rx own proposed historical (config\<lparr>sortTags := False\<rparr>)))"
    using tags_mergeTags_sorted [of zhCN rx own proposed historical config] by simp
  with True show ?thesis by (simp add: tags_mergeTags_unsorted)
qed

lemma merge_example_unsorted:
  "orderedUnion (normalizedTags ([''A'', ''B''] @ [''B'', ''C''] @ [''C'', ''D''])) = [''A'', ''B'', ''C'', ''D'']"
  by (simp add: orderedUnion_def normalizedTags_def normalizeTag_def trim_def trimStart_def trimEnd_def
      isSep_def isSpace_def toLowerCase_def lowerChar_def)

text \<open>
  C5. The merge builds the ordered union of the historical, the own and the proposed
  tags (normalized, the empty ones dropped), in which the first case-insensitive
  occurrence wins for casing and position; with the sort enabled the result is that union
  sorted by the locale comparator: the same set, in order when the comparator is
  consistent. Historical A, B with own B, C and proposed C, D merge to A, B, C, D.
\<close>

theorem merge_ordered_union:
  "tags (mergeTags zhCN rx own proposed historical config) =
     (let u = orderedUnion (normalizedTags
                ((case historical of None \<Rightarrow> [] | Some h \<Rightarrow> h) @ own @ proposed))
      in if sortTags config then jsSort zhCN u else u)
   \<and> tags (mergeTags zhCN rx [''B'', ''C''] [''C'', ''D''] (Some [''A'', ''B''])
         (config\<lparr>sortTags := False\<rparr>)) = [''A'', ''B'', ''C'', ''D'']
   \<and> set (tags (mergeTags zhCN rx own proposed historical (config\<lparr>sortTags := True\<rparr>)))
       = set (tags (mergeTags zhCN rx own proposed historical (config\<lparr>sortTags := False\<rparr>)))
   \<and> (consistent zhCN \<longrightarrow>
        sorted_wrt (\<lambda>a b. zhCN a b \<le> 0)
          (tags (mergeTags zhCN rx own proposed historical (config\<lparr>sortTags := True\<rparr>))))"
proof (intro conjI impI)
  show "tags (mergeTags zhCN rx own proposed historical config) =
     (let u = orderedUnion (normalizedTags
                ((case historical of None \<Rightarrow> [] | Some h \<Rightarrow> h) @ own @ proposed))
      in if sortTags config then jsSort zhCN u else u)"
    by (rule tags_mergeTags_spec)
  show "tags (mergeTags zhCN rx [''B'', ''C''] [''C'', ''D''] (Some [''A'', ''B''])
         (config\<lparr>sortTags := False\<rparr>)) = [''A'', ''B'', ''C'', ''D'']"
    using merge_example_unsorted by (simp add: tags_mergeTags_unsorted)
  show "set (tags (mergeTags zhCN rx own proposed historical (config\<lparr>sortTags := True\<rparr>)))
       = set (tags (mergeTags zhCN rx own proposed historical (config\<lparr>sortTags := False\<rparr>)))"
    by (simp add: tags_mergeTags_sorted set_jsSort)
  show "sorted_wrt (\<lambda>a b. zhCN a b \<le> 0)
          (tags (mergeTags zhCN rx own proposed historical (config\<lparr>sortTags := True\<rparr>)))"
    if "consistent zhCN"
    using that by (simp add: tags_mergeTags_sorted sorted_jsSort)
qed

theorem merge_ordered_union_witness:
  "consistent codeUnitCompare
   \<and> tags (mergeTags codeUnitCompare (\<lambda>p. None) [''b'', ''C''] [''D'', ''c''] (Some [''B'', ''A''])
         \<lparr>sortTags = True, taxonomyRules = None, apiKey = ''k'', dryRun = False, filter_cfg = []\<rparr>)
       = [''A'', ''B'', ''C'', ''D'']
   \<and> sorted_wrt (\<lambda>a b. codeUnitCompare a b \<le> 0) [''A'', ''B'', ''C'', ''D'']"
proof -
  let ?cfg = "\<lparr>sortTags = True, taxonomyRules = None, apiKey = ''k'', dryRun = False, filter_cfg = []\<rparr>"
  have u: "orderedUnion (normalizedTags ([''B'', ''A''] @ [''b'', ''C''] @ [''D'', ''c''])) = [''B'', ''A'', ''C'', ''D'']"
    by code_simp
  have s: "jsSort codeUnitCompare [''B'', ''A'', ''C'', ''D''] = [''A'', ''B'', ''C'', ''D'']"
    by (simp add: jsSort_def codeUnitCompare_def)
  note m = merge_ordered_union [of codeUnitCompare "\<lambda>p. None" "[''b'', ''C'']" "[''D'', ''c'']"
      "Some [''B'', ''A'']" ?cfg, simplified]
  from m have "tags (mergeTags codeUnitCompare (\<lambda>p. None) [''b'', ''C''] [''D'', ''c''] (Some [''B'', ''A'']) ?cfg) =
      jsSort codeUnitCompare (orderedUnion (normalizedTags [''B'', ''A'', ''b'', ''C'', ''D'', ''c'']))"
    by (rule conjunct1)
  with u s have t: "tags (mergeTags codeUnitCompare (\<lambda>p. None) [''b'', ''C''] [''D'', ''c''] (Some [''B'', ''A'']) ?cfg)
      = [''A'', ''B'', ''C'', ''D'']"
    by simp
  from m consistent_codeUnitCompare
  have "sorted_wrt (\<lambda>a b. codeUnitCompare a b \<le> 0)
      (tags (mergeTags codeUnitCompare (\<lambda>p. None) [''b'', ''C''] [''D'', ''c''] (Some [''B'', ''A'']) ?cfg))"
    by blast
  then have "sorted_wrt (\<lambda>a b. codeUnitCompare a b \<le> 0) [''A'', ''B'', ''C'', ''D'']"
    by (simp only: t)
  with consistent_codeUnitCompare t show ?thesis by blast
qed

lemma tagKey_normal: "normalizeTag n = n \<Longrightarrow> tagKey n = toLowerCase n"
  by (simp add: tagKey_def)

lemma tagKey_normalizedTags: "tagKey ` set (normalizedTags xs) = toLowerCase ` set (normalizedTags xs)"
  using normalizedTags_normal [of xs] by (force simp: tagKey_def)

lemma set_orderedUnion: "set (orderedUnion xs) \<subseteq> set xs"
  unfolding orderedUnion_def by (rule set_firstBy)

lemma tagKey_orderedUnion:
  "tagKey ` set (orderedUnion (normalizedTags xs)) = tagKey ` set (normalizedTags xs)"
proof -
  have sub: "set (orderedUnion (normalizedTags xs)) \<subseteq> set (normalizedTags xs)"
    by (rule set_orderedUnion)
  have "tagKey ` set (orderedUnion (normalizedTags xs))
      = toLowerCase ` set (orderedUnion (normalizedTags xs))"
  proof (rule image_cong [OF refl])
    fix n
    assume "n \<in> set (orderedUnion (normalizedTags xs))"
    with sub have "n \<in> set (normalizedTags xs)" by blast
    with normalizedTags_normal [of xs] show "tagKey n = toLowerCase n"
      by (simp add: tagKey_def)
  qed
  also have "\<dots> = toLowerCase ` set (normalizedTags xs)"
    unfolding orderedUnion_def by (rule keys_firstBy)
  finally show ?thesis by (simp add: tagKey_normalizedTags)
qed

lemma tagKey_dedupe: "tagKey ` set (dedupe zhCN xs False) = tagKey ` set (normalizedTags xs)"
  by (simp add: dedupe_unsorted tagKey_orderedUnion)

lemma set_tags_mergeTags:
  "set (tags (mergeTags zhCN rx own proposed historical config)) =
     set (orderedUnion (normalizedTags
       ((case historical of None \<Rightarrow> [] | Some h \<Rightarrow> h) @ own @ proposed)))"
  by (simp add: tags_mergeTags_spec Let_def set_jsSort)

lemma existing_keys:
  "tagKey ` set ((case historical of None \<Rightarrow> [] | Some h \<Rightarrow> dedupe zhCN h False) @ dedupe zhCN own False)
     = tagKey ` set (normalizedTags ((case historical of None \<Rightarrow> [] | Some h \<Rightarrow> h) @ own))"
proof (cases historical)
  case None
  then show ?thesis by (simp add: tagKey_dedupe)
next
  case (Some h)
  then show ?thesis by (simp add: image_Un tagKey_dedupe normalizedTags_append)
qed

lemma added_mergeTags:
  "added (mergeTags zhCN rx own proposed historical config) =
     filter (\<lambda>t. tagKey t \<notin> tagKey ` set (normalizedTags
                 ((case historical of None \<Rightarrow> [] | Some h \<Rightarrow> h) @ own)))
       (tags (mergeTags zhCN rx own proposed historical config))"
proof -
  have "added (mergeTags zhCN rx own proposed historical config) =
      filter (\<lambda>t. tagKey t \<notin> tagKey ` set ((case historical of None \<Rightarrow> [] | Some h \<Rightarrow> dedupe zhCN h False)
                 @ dedupe zhCN own False))
        (tags (mergeTags zhCN rx own proposed historical config))"
    by (simp only: mergeTags_def Let_def MergeResult.select_convs set_map tagKey_def [abs_def])
  then show ?thesis by (simp only: existing_keys)
qed

lemma added_subset:
  "set (added (mergeTags zhCN rx own proposed historical config)) \<subseteq> set (normalizedTags proposed)"
proof
  fix t
  let ?h = "case historical of None \<Rightarrow> [] | Some h \<Rightarrow> h"
  assume "t \<in> set (added (mergeTags zhCN rx own proposed historical config))"
  then have key: "tagKey t \<notin> tagKey ` set (normalizedTags (?h @ own))"
    and "t \<in> set (tags (mergeTags zhCN rx own proposed historical config))"
    by (simp_all add: added_mergeTags)
  then have "t \<in> set (orderedUnion (normalizedTags (?h @ own @ proposed)))"
    by (simp add: set_tags_mergeTags)
  with set_orderedUnion have "t \<in> set (normalizedTags (?h @ own @ proposed))" by blast
  then have "t \<in> set (normalizedTags (?h @ own)) \<or> t \<in> set (normalizedTags proposed)"
    by (auto simp: normalizedTags_append)
  with key show "t \<in> set (normalizedTags proposed)" by blast
qed

lemma added_example_facts:
  "normalizedTags ([''X''] @ []) = [''X'']"
  "orderedUnion (normalizedTags ([''X''] @ [] @ [''X'', ''Y''])) = [''X'', ''Y'']"
  "tagKey ''X'' \<noteq> tagKey ''Y''"
  by code_simp+

text \<open>
  C6. The added field is exactly the final tags whose normalized key is absent from the
  union of the historical and the own tags as it is before the proposed tags are folded
  in (the merge of the same document with no proposed tag), so every added tag comes from
  the proposed ones. Historical X, no own tag and proposed X, Y give added Y.
\<close>

theorem added_correct:
  "added (mergeTags zhCN rx own proposed historical config) =
     filter (\<lambda>t. tagKey t \<notin> tagKey ` set (tags (mergeTags zhCN rx own [] historical config)))
       (tags (mergeTags zhCN rx own proposed historical config))
   \<and> added (mergeTags zhCN rx own proposed historical config) =
     filter (\<lambda>t. tagKey t \<notin> tagKey ` set (normalizedTags
                 ((case historical of None \<Rightarrow> [] | Some h \<Rightarrow> h) @ own)))
       (tags (mergeTags zhCN rx own proposed historical config))
   \<and> set (added (mergeTags zhCN rx own proposed historical config)) \<subseteq> set (normalizedTags proposed)
   \<and> added (mergeTags zhCN rx [] [''X'', ''Y''] (Some [''X'']) config) = [''Y'']"
proof (intro conjI)
  let ?h = "case historical of None \<Rightarrow> [] | Some h \<Rightarrow> h"
  have "tagKey ` set (tags (mergeTags zhCN rx own [] historical config))
      = tagKey ` set (normalizedTags (?h @ own))"
    using tagKey_orderedUnion [of "?h @ own"] by (simp add: set_tags_mergeTags)
  then show "added (mergeTags zhCN rx own proposed historical config) =
     filter (\<lambda>t. tagKey t \<notin> tagKey ` set (tags (mergeTags zhCN rx own [] historical config)))
       (tags (mergeTags zhCN rx own proposed historical config))"
    by (simp only: added_mergeTags)
  show "added (mergeTags zhCN rx own proposed historical config) =
     filter (\<lambda>t. tagKey t \<notin> tagKey ` set (normalizedTags (?h @ own)))
       (tags (mergeTags zhCN rx own proposed historical config))"
    by (rule added_mergeTags)
  show "set (added (mergeTags zhCN rx own proposed historical config)) \<subseteq> set (normalizedTags proposed)"
    by (rule added_subset)
  have "tags (mergeTags zhCN rx [] [''X'', ''Y''] (Some [''X'']) config)
      = (if sortTags config then jsSort zhCN [''X'', ''Y''] else [''X'', ''Y''])"
    using added_example_facts(2) by (simp add: tags_mergeTags_spec)
  moreover have "jsSort zhCN [''X'', ''Y''] = [''X'', ''Y''] \<or> jsSort zhCN [''X'', ''Y''] = [''Y'', ''X'']"
    by (simp add: jsSort_def)
  ultimately show "added (mergeTags zhCN rx [] [''X'', ''Y''] (Some [''X'']) config) = [''Y'']"
    using added_example_facts(1,3)
    by (auto simp: added_mergeTags [of zhCN rx "[]" "[''X'', ''Y'']" "Some [''X'']" config])
qed

lemma distinct_map_insertBy:
  "distinct (map f (insertBy cmp x ys)) \<longleftrightarrow> f x \<notin> f ` set ys \<and> distinct (map f ys)"
  by (induction ys) (auto simp: set_insertBy)

lemma distinct_map_jsSort: "distinct (map f (jsSort cmp xs)) \<longleftrightarrow> distinct (map f xs)"
proof (induction xs)
  case Nil
  show ?case by (simp add: jsSort_def)
next
  case (Cons x xs)
  have "jsSort cmp (x # xs) = insertBy cmp x (jsSort cmp xs)" by (simp add: jsSort_def)
  with Cons show ?case by (simp add: distinct_map_insertBy set_jsSort)
qed

lemma tags_nonempty: "[] \<notin> set (tags (mergeTags zhCN rx own proposed historical config))"
proof
  let ?all = "(case historical of None \<Rightarrow> [] | Some h \<Rightarrow> h) @ own @ proposed"
  assume "[] \<in> set (tags (mergeTags zhCN rx own proposed historical config))"
  then have "[] \<in> set (orderedUnion (normalizedTags ?all))" by (simp add: set_tags_mergeTags)
  with set_orderedUnion have "[] \<in> set (normalizedTags ?all)" by blast
  then show False by (simp add: normalizedTags_def)
qed

lemma tags_distinct_keys:
  "distinct (map toLowerCase (tags (mergeTags zhCN rx own proposed historical config)))"
  by (simp add: tags_mergeTags_spec Let_def distinct_map_jsSort orderedUnion_def distinct_firstBy)

lemma lowerChar_nonSep: "nonSep (lowerChar c) = nonSep c"
proof -
  have inj: "a = b \<longleftrightarrow> (of_char a :: nat) = of_char b" for a b :: char
    by auto
  have "(of_char c :: nat) < 256" by simp
  then show ?thesis
    by (auto simp: nonSep_def isSep_def isSpace_def lowerChar_def Let_def inj [of _ "CHR ''_''"] inj [of _ "CHR ''/''"])
qed

lemma lowered_words_good:
  "\<forall>w\<in>set (map toLowerCase (splitWords t)). w \<noteq> [] \<and> (\<forall>c\<in>set w. nonSep c)"
  using splitWords_good [of t] by (auto simp: toLowerCase_def lowerChar_nonSep)

lemma tagKey_words: "tagKey t = joinWords (map toLowerCase (splitWords t))"
  by (simp add: tagKey_def normalizeTag_words toLowerCase_joinWords)

lemma tagKey_eq_iff:
  "tagKey a = tagKey b \<longleftrightarrow> map toLowerCase (splitWords a) = map toLowerCase (splitWords b)"
proof
  assume "tagKey a = tagKey b"
  then have "splitWords (joinWords (map toLowerCase (splitWords a)))
      = splitWords (joinWords (map toLowerCase (splitWords b)))"
    by (simp add: tagKey_words)
  then show "map toLowerCase (splitWords a) = map toLowerCase (splitWords b)"
    by (simp only: splitWords_joinWords [OF lowered_words_good])
next
  assume "map toLowerCase (splitWords a) = map toLowerCase (splitWords b)"
  then show "tagKey a = tagKey b" by (simp add: tagKey_words)
qed

lemma jsSort_single: "jsSort cmp [x] = [x]"
  by (simp add: jsSort_def)

lemma merge_same_key:
  assumes "tagKey a = tagKey b" "normalizeTag a \<noteq> []"
  shows "tags (mergeTags zhCN rx [a] [b] None config) = [normalizeTag a]"
proof -
  from assms have "toLowerCase (normalizeTag b) = toLowerCase (normalizeTag a)"
    by (simp add: tagKey_def)
  moreover from this assms(2) have "normalizeTag b \<noteq> []"
    by (auto simp: toLowerCase_def)
  ultimately have "orderedUnion (normalizedTags ([] @ [a] @ [b])) = [normalizeTag a]"
    using assms(2) by (simp add: orderedUnion_def normalizedTags_def)
  then show ?thesis by (simp add: tags_mergeTags_spec jsSort_single Let_def)
qed

text \<open>
  C7. Normalization joins the words of a tag (its maximal runs free of white space,
  underscore and slash) with single spaces, so it collapses the runs and trims. Two tags
  have the same key exactly when their words agree up to case; merged, such tags give one
  tag with the casing of the first one seen. The tags of a merge result have distinct
  keys, and none of them is the empty string.
\<close>

theorem normalization_keys:
  "normalizeTag t = joinWords (splitWords t)
   \<and> (tagKey a = tagKey b \<longleftrightarrow> map toLowerCase (splitWords a) = map toLowerCase (splitWords b))
   \<and> (map toLowerCase (splitWords a) = map toLowerCase (splitWords b) \<and> normalizeTag a \<noteq> [] \<longrightarrow>
        tags (mergeTags zhCN rx [a] [b] None config) = [normalizeTag a])
   \<and> distinct (map toLowerCase (tags (mergeTags zhCN rx own proposed historical config)))
   \<and> [] \<notin> set (tags (mergeTags zhCN rx own proposed historical config))"
proof (intro conjI impI)
  show "normalizeTag t = joinWords (splitWords t)" by (rule normalizeTag_words)
  show "tagKey a = tagKey b \<longleftrightarrow> map toLowerCase (splitWords a) = map toLowerCase (splitWords b)"
    by (rule tagKey_eq_iff)
  show "tags (mergeTags zhCN rx [a] [b] None config) = [normalizeTag a]"
    if "map toLowerCase (splitWords a) = map toLowerCase (splitWords b) \<and> normalizeTag a \<noteq> []"
    using that by (intro merge_same_key) (simp_all add: tagKey_eq_iff)
  show "distinct (map toLowerCase (tags (mergeTags zhCN rx own proposed historical config)))"
    by (rule tags_distinct_keys)
  show "[] \<notin> set (tags (mergeTags zhCN rx own proposed historical config))"
    by (rule tags_nonempty)
qed

theorem normalization_keys_witness:
  "map toLowerCase (splitWords ''Machine_Learning'') = map toLowerCase (splitWords '' machine  learning/'')
   \<and> normalizeTag ''Machine_Learning'' = ''Machine Learning''
   \<and> tags (mergeTags codeUnitCompare (\<lambda>p. None) [''Machine_Learning''] ['' machine  learning/''] None
         \<lparr>sortTags = True, taxonomyRules = None, apiKey = ''k'', dryRun = False, filter_cfg = []\<rparr>)
       = [''Machine Learning'']"
proof -
  have w: "map toLowerCase (splitWords ''Machine_Learning'') = map toLowerCase (splitWords '' machine  learning/'')"
    by code_simp
  have n: "normalizeTag ''Machine_Learning'' = ''Machine Learning''"
    by code_simp
  then have ne: "normalizeTag ''Machine_Learning'' \<noteq> []" by simp
  from normalization_keys [of "[]" "''Machine_Learning''" "'' machine  learning/''" codeUnitCompare
      "\<lambda>p. None" "\<lparr>sortTags = True, taxonomyRules = None, apiKey = ''k'', dryRun = False, filter_cfg = []\<rparr>"
      "[]" "[]" None] w ne
  have "tags (mergeTags codeUnitCompare (\<lambda>p. None) [''Machine_Learning''] ['' machine  learning/''] None
         \<lparr>sortTags = True, taxonomyRules = None, apiKey = ''k'', dryRun = False, filter_cfg = []\<rparr>)
       = [normalizeTag ''Machine_Learning'']"
    by blast
  with w n show ?thesis by simp
qed

section \<open>The synchronizer's own normalization\<close>

lemma dedupeTags_loop_spec:
  "map snd (dedupeTags_loop seen ts) =
     map snd seen @ firstBy toLowerCase
       (filter (\<lambda>n. toLowerCase n \<notin> fst ` set seen) (trimmedTags ts))"
proof (induction ts arbitrary: seen)
  case Nil
  show ?case by (simp add: trimmedTags_def)
next
  case (Cons t ts)
  define n where "n = trim t"
  have nt: "trimmedTags (t # ts) = (if n = [] then trimmedTags ts else n # trimmedTags ts)"
    by (simp add: trimmedTags_def n_def)
  show ?case
  proof (cases "n = []")
    case True
    with Cons nt show ?thesis by (simp add: n_def)
  next
    case False
    show ?thesis
    proof (cases "toLowerCase n \<in> fst ` set seen")
      case True
      then have "map_of seen (toLowerCase n) \<noteq> None" by (simp add: map_of_eq_None_iff)
      with True False Cons [of seen] nt show ?thesis by (auto simp: n_def [symmetric] Let_def)
    next
      case notin: False
      then have none: "map_of seen (toLowerCase n) = None" by (simp add: map_of_eq_None_iff)
      have step: "dedupeTags_loop seen (t # ts) = dedupeTags_loop (seen @ [(toLowerCase n, n)]) ts"
        using False none by (simp add: n_def [symmetric] Let_def)
      have f1: "filter (\<lambda>m. toLowerCase m \<notin> fst ` set (seen @ [(toLowerCase n, n)])) (trimmedTags ts)
          = filter (\<lambda>m. toLowerCase m \<noteq> toLowerCase n)
              (filter (\<lambda>m. toLowerCase m \<notin> fst ` set seen) (trimmedTags ts))"
        by (auto intro: filter_cong)
      have f2: "firstBy toLowerCase (filter (\<lambda>m. toLowerCase m \<noteq> toLowerCase n) zs)
          = filter (\<lambda>m. toLowerCase m \<noteq> toLowerCase n) (firstBy toLowerCase zs)" for zs
        using filter_firstBy [of "\<lambda>key. key \<noteq> toLowerCase n" toLowerCase zs] by simp
      show ?thesis
        unfolding step Cons [of "seen @ [(toLowerCase n, n)]"] f1 f2
        using False notin nt by simp
    qed
  qed
qed

lemma dedupeTags_spec:
  "dedupeTags zhCN xs sortFlag =
     (let u = orderedUnion (trimmedTags xs) in if sortFlag then jsSort zhCN u else u)"
  using dedupeTags_loop_spec [of "[]" xs] by (simp add: dedupeTags_def orderedUnion_def Let_def)

lemma trimStart_joinWords:
  "\<forall>w\<in>set ws. w \<noteq> [] \<and> (\<forall>c\<in>set w. nonSep c) \<Longrightarrow> trimStart (joinWords ws) = joinWords ws"
proof (cases ws)
  case Nil
  then show ?thesis by (simp add: trimStart_def)
next
  case (Cons w rest)
  assume good: "\<forall>w\<in>set ws. w \<noteq> [] \<and> (\<forall>c\<in>set w. nonSep c)"
  with Cons obtain c cs where w: "w = c # cs" and "nonSep c" by (cases w) auto
  then have "\<not> isSpace c" by (auto simp: nonSep_def dest: isSpace_isSep)
  then show ?thesis using Cons w by (simp add: trimStart_def joinWords_Cons)
qed

lemma trimEnd_joinWords:
  "\<forall>w\<in>set ws. w \<noteq> [] \<and> (\<forall>c\<in>set w. nonSep c) \<Longrightarrow> trimEnd (joinWords ws) = joinWords ws"
proof (induction ws rule: joinWords.induct)
  case 1
  show ?case by (simp add: trimEnd_def)
next
  case (2 w)
  then have "\<forall>c\<in>set w. \<not> isSpace c" by (auto simp: nonSep_def dest: isSpace_isSep)
  then show ?case by (simp add: trimEnd_id)
next
  case (3 w v ws)
  then have IH: "trimEnd (joinWords (v # ws)) = joinWords (v # ws)" by simp
  from 3(2) have "joinWords (v # ws) \<noteq> []" by (simp add: joinWords_Cons)
  with IH show ?case by (simp add: trimEnd_append trimEnd_Cons_space)
qed

lemma trim_normalizeTag: "trim (normalizeTag t) = normalizeTag t"
  by (simp add: normalizeTag_words trim_def trimStart_joinWords trimEnd_joinWords splitWords_good)

lemma trimmedTags_fix: "\<forall>n\<in>set ys. normalizeTag n = n \<and> n \<noteq> [] \<Longrightarrow> trimmedTags ys = ys"
proof (induction ys)
  case Nil
  show ?case by (simp add: trimmedTags_def)
next
  case (Cons y ys)
  then have "trim y = y" using trim_normalizeTag [of y] by simp
  with Cons show ?case by (simp add: trimmedTags_def)
qed

lemma tags_normal:
  "\<forall>n\<in>set (tags (mergeTags zhCN rx own proposed historical config)). normalizeTag n = n \<and> n \<noteq> []"
proof
  fix n
  let ?all = "(case historical of None \<Rightarrow> [] | Some h \<Rightarrow> h) @ own @ proposed"
  assume "n \<in> set (tags (mergeTags zhCN rx own proposed historical config))"
  then have "n \<in> set (orderedUnion (normalizedTags ?all))" by (simp add: set_tags_mergeTags)
  with set_orderedUnion have "n \<in> set (normalizedTags ?all)" by blast
  with normalizedTags_normal [of ?all] show "normalizeTag n = n \<and> n \<noteq> []" by blast
qed

lemma tags_sorted:
  "consistent zhCN \<Longrightarrow> sortTags config \<Longrightarrow>
   sorted_wrt (\<lambda>a b. zhCN a b \<le> 0) (tags (mergeTags zhCN rx own proposed historical config))"
  by (simp add: tags_mergeTags_spec Let_def sorted_jsSort)

lemma dedupeTags_merged:
  assumes "consistent zhCN"
  shows "dedupeTags zhCN (tags (mergeTags zhCN rx own proposed historical config)) (sortTags config)
       = tags (mergeTags zhCN rx own proposed historical config)"
proof -
  let ?ts = "tags (mergeTags zhCN rx own proposed historical config)"
  have "trimmedTags ?ts = ?ts" by (rule trimmedTags_fix) (rule tags_normal)
  moreover have "orderedUnion ?ts = ?ts"
    unfolding orderedUnion_def by (rule firstBy_distinct) (rule tags_distinct_keys)
  ultimately have u: "dedupeTags zhCN ?ts sortFlag = (if sortFlag then jsSort zhCN ?ts else ?ts)" for sortFlag
    by (simp add: dedupeTags_spec)
  show ?thesis
  proof (cases "sortTags config")
    case True
    with assms have "jsSort zhCN ?ts = ?ts" by (intro jsSort_sorted_id tags_sorted)
    with True u show ?thesis by simp
  next
    case False
    with u show ?thesis by simp
  qed
qed

section \<open>The report of the synchronizer\<close>

lemma arraysEqual_iff: "arraysEqual a b \<longleftrightarrow> a = b"
  by (auto simp: list_all2_eq [symmetric] dest: list_all2_lengthD)

lemma syncEntry_fields:
  "unchanged (syncEntry sep zhCN fe posts options e r) =
     unchanged r @ (if (case postMap sep posts (entryPath sep e) of None \<Rightarrow> False
          | Some post \<Rightarrow> dedupeTags zhCN (snd e) (opt_sortTags options)
                         = dedupeTags zhCN (frontMatterTags post) (opt_sortTags options))
        then [entryPath sep e] else [])"
  "updated (syncEntry sep zhCN fe posts options e r) =
     updated r @ (if (case postMap sep posts (entryPath sep e) of None \<Rightarrow> False
          | Some post \<Rightarrow> dedupeTags zhCN (snd e) (opt_sortTags options)
                         \<noteq> dedupeTags zhCN (frontMatterTags post) (opt_sortTags options))
        then [entryPath sep e] else [])"
  "missing (syncEntry sep zhCN fe posts options e r) =
     missing r @ (if postMap sep posts (entryPath sep e) = None \<and> trim (opt_filter options) = []
                     \<and> \<not> fe (entryPath sep e)
        then [entryPath sep e] else [])"
  "filteredOut (syncEntry sep zhCN fe posts options e r) =
     filteredOut r @ (if postMap sep posts (entryPath sep e) = None
                        \<and> (fe (entryPath sep e) \<or> trim (opt_filter options) \<noteq> [])
        then [entryPath sep e] else [])"
  by (auto simp: syncEntry_def Let_def entryPath_def arraysEqual_iff simp del: arraysEqual.simps
      split: option.splits)

lemma fold_syncEntry_unchanged:
  "unchanged (fold (syncEntry sep zhCN fe posts options) es r) =
     unchanged r @ map (entryPath sep)
       (filter (\<lambda>e. case postMap sep posts (entryPath sep e) of None \<Rightarrow> False
          | Some post \<Rightarrow> dedupeTags zhCN (snd e) (opt_sortTags options)
                         = dedupeTags zhCN (frontMatterTags post) (opt_sortTags options)) es)"
  by (induction es arbitrary: r) (simp_all add: syncEntry_fields)

lemma fold_syncEntry_updated:
  "updated (fold (syncEntry sep zhCN fe posts options) es r) =
     updated r @ map (entryPath sep)
       (filter (\<lambda>e. case postMap sep posts (entryPath sep e) of None \<Rightarrow> False
          | Some post \<Rightarrow> dedupeTags zhCN (snd e) (opt_sortTags options)
                         \<noteq> dedupeTags zhCN (frontMatterTags post) (opt_sortTags options)) es)"
  by (induction es arbitrary: r) (simp_all add: syncEntry_fields)

lemma fold_syncEntry_missing:
  "missing (fold (syncEntry sep zhCN fe posts options) es r) =
     missing r @ map (entryPath sep)
       (filter (\<lambda>e. postMap sep posts (entryPath sep e) = None \<and> trim (opt_filter options) = []
                     \<and> \<not> fe (entryPath sep e)) es)"
  by (induction es arbitrary: r) (simp_all add: syncEntry_fields)

lemma fold_syncEntry_filteredOut:
  "filteredOut (fold (syncEntry sep zhCN fe posts options) es r) =
     filteredOut r @ map (entryPath sep)
       (filter (\<lambda>e. postMap sep posts (entryPath sep e) = None
                        \<and> (fe (entryPath sep e) \<or> trim (opt_filter options) \<noteq> [])) es)"
  by (induction es arbitrary: r) (simp_all add: syncEntry_fields)

lemma sync_fold:
  "syncFrontmatterFromTags sep zhCN fe idx posts options =
     fold (syncEntry sep zhCN fe posts options) idx
       \<lparr>updated = [], unchanged = [], missing = [], filteredOut = [], totalEntries = length idx\<rparr>"
  by (cases idx) (simp_all add: syncFrontmatterFromTags_def Let_def)

text \<open>
  C2, as claimed: the index's list and the document's own tags are compared under the
  normalization of TagMerger. The lists \<open>a_b\<close> and \<open>a b\<close> are the same under it, yet the
  synchronizer reports the document as updated: it only trims.
\<close>

theorem sync_normalization_counterexample:
  "dedupe codeUnitCompare [''a_b''] False = dedupe codeUnitCompare [''a b''] False
   \<and> unchanged (syncFrontmatterFromTags CHR ''/'' codeUnitCompare (\<lambda>p. True)
        [(''p.md'', [''a_b''])] [\<lparr>relativePath = ''p.md'', frontMatterTags = [''a b'']\<rparr>]
        \<lparr>opt_dryRun = False, opt_filter = [], opt_includeDrafts = False, opt_sortTags = False\<rparr>) = []
   \<and> updated (syncFrontmatterFromTags CHR ''/'' codeUnitCompare (\<lambda>p. True)
        [(''p.md'', [''a_b''])] [\<lparr>relativePath = ''p.md'', frontMatterTags = [''a b'']\<rparr>]
        \<lparr>opt_dryRun = False, opt_filter = [], opt_includeDrafts = False, opt_sortTags = False\<rparr>) = [''p.md'']"
  by code_simp

text \<open>
  C2, amended. For the entries of the index whose document is in the loaded corpus, the
  synchronizer normalizes the index's list and the document's own tags alike: each tag
  trimmed, the empty ones dropped, the first occurrence up to case kept, and the result
  sorted by the comparator of TagMerger when the sort is on; runs of white space,
  underscores and slashes stay as they are. The document is unchanged exactly when the
  two lists are equal, and updated otherwise. A tag list that TagMerger produced is
  left as it is by this normalization.
\<close>

theorem sync_unchanged_iff:
  "unchanged (syncFrontmatterFromTags sep zhCN fe idx posts options) =
     map (entryPath sep)
       (filter (\<lambda>e. case postMap sep posts (entryPath sep e) of None \<Rightarrow> False
          | Some post \<Rightarrow> dedupeTags zhCN (snd e) (opt_sortTags options)
                         = dedupeTags zhCN (frontMatterTags post) (opt_sortTags options)) idx)
   \<and> updated (syncFrontmatterFromTags sep zhCN fe idx posts options) =
     map (entryPath sep)
       (filter (\<lambda>e. case postMap sep posts (entryPath sep e) of None \<Rightarrow> False
          | Some post \<Rightarrow> dedupeTags zhCN (snd e) (opt_sortTags options)
                         \<noteq> dedupeTags zhCN (frontMatterTags post) (opt_sortTags options)) idx)
   \<and> dedupeTags zhCN xs sortFlag =
       (let u = orderedUnion (trimmedTags xs) in if sortFlag then jsSort zhCN u else u)
   \<and> (consistent zhCN \<longrightarrow>
        dedupeTags zhCN (tags (mergeTags zhCN rx own proposed historical config)) (sortTags config)
          = tags (mergeTags zhCN rx own proposed historical config))"
proof (intro conjI impI)
  show "unchanged (syncFrontmatterFromTags sep zhCN fe idx posts options) =
     map (entryPath sep)
       (filter (\<lambda>e. case postMap sep posts (entryPath sep e) of None \<Rightarrow> False
          | Some post \<Rightarrow> dedupeTags zhCN (snd e) (opt_sortTags options)
                         = dedupeTags zhCN (frontMatterTags post) (opt_sortTags options)) idx)"
    by (simp add: sync_fold fold_syncEntry_unchanged)
  show "updated (syncFrontmatterFromTags sep zhCN fe idx posts options) =
     map (entryPath sep)
       (filter (\<lambda>e. case postMap sep posts (entryPath sep e) of None \<Rightarrow> False
          | Some post \<Rightarrow> dedupeTags zhCN (snd e) (opt_sortTags options)
                         \<noteq> dedupeTags zhCN (frontMatterTags post) (opt_sortTags options)) idx)"
    by (simp add: sync_fold fold_syncEntry_updated)
  show "dedupeTags zhCN xs sortFlag =
       (let u = orderedUnion (trimmedTags xs) in if sortFlag then jsSort zhCN u else u)"
    by (rule dedupeTags_spec)
  show "dedupeTags zhCN (tags (mergeTags zhCN rx own proposed historical config)) (sortTags config)
          = tags (mergeTags zhCN rx own proposed historical config)"
    if "consistent zhCN"
    using that by (rule dedupeTags_merged)
qed

theorem sync_unchanged_iff_witness:
  "consistent codeUnitCompare
   \<and> tags (mergeTags codeUnitCompare (\<lambda>p. None) [''b_c''] [''A''] None
        \<lparr>sortTags = True, taxonomyRules = None, apiKey = ''k'', dryRun = False, filter_cfg = []\<rparr>)
       = [''A'', ''b c'']
   \<and> dedupeTags codeUnitCompare [''A'', ''b c''] True = [''A'', ''b c'']
   \<and> unchanged (syncFrontmatterFromTags CHR ''/'' codeUnitCompare (\<lambda>p. True)
        [(''p.md'', [''A'', ''b c'']), (''q.md'', [''x'']), (''gone.md'', [])]
        [\<lparr>relativePath = ''p.md'', frontMatterTags = ['' A'', ''a'', ''b c'']\<rparr>,
         \<lparr>relativePath = ''q.md'', frontMatterTags = [''y'']\<rparr>]
        \<lparr>opt_dryRun = False, opt_filter = [], opt_includeDrafts = False, opt_sortTags = True\<rparr>)
       = [''p.md'']"
proof -
  let ?cfg = "\<lparr>sortTags = True, taxonomyRules = None, apiKey = ''k'', dryRun = False, filter_cfg = []\<rparr>"
  let ?idx = "[(''p.md'', [''A'', ''b c'']), (''q.md'', [''x'']), (''gone.md'', [])]"
  let ?posts = "[\<lparr>relativePath = ''p.md'', frontMatterTags = ['' A'', ''a'', ''b c'']\<rparr>,
         \<lparr>relativePath = ''q.md'', frontMatterTags = [''y'']\<rparr>]"
  let ?opts = "\<lparr>opt_dryRun = False, opt_filter = [], opt_includeDrafts = False, opt_sortTags = True\<rparr>"
  have t: "tags (mergeTags codeUnitCompare (\<lambda>p. None) [''b_c''] [''A''] None ?cfg) = [''A'', ''b c'']"
    by code_simp
  have f: "map (entryPath CHR ''/'')
       (filter (\<lambda>e. case postMap CHR ''/'' ?posts (entryPath CHR ''/'' e) of None \<Rightarrow> False
          | Some post \<Rightarrow> dedupeTags codeUnitCompare (snd e) (opt_sortTags ?opts)
                         = dedupeTags codeUnitCompare (frontMatterTags post) (opt_sortTags ?opts)) ?idx)
      = [''p.md'']"
    by code_simp
  note inst = sync_unchanged_iff [of "CHR ''/''" codeUnitCompare "\<lambda>p. True" ?idx ?posts ?opts
      "[]" False "\<lambda>p. None" "[''b_c'']" "[''A'']" None ?cfg]
  from inst consistent_codeUnitCompare
  have "dedupeTags codeUnitCompare (tags (mergeTags codeUnitCompare (\<lambda>p. None) [''b_c''] [''A''] None ?cfg))
          (sortTags ?cfg)
        = tags (mergeTags codeUnitCompare (\<lambda>p. None) [''b_c''] [''A''] None ?cfg)"
    by blast
  then have d: "dedupeTags codeUnitCompare [''A'', ''b c''] True = [''A'', ''b c'']"
    by (simp add: t)
  from inst have "unchanged (syncFrontmatterFromTags CHR ''/'' codeUnitCompare (\<lambda>p. True) ?idx ?posts ?opts)
      = map (entryPath CHR ''/'')
       (filter (\<lambda>e. case postMap CHR ''/'' ?posts (entryPath CHR ''/'' e) of None \<Rightarrow> False
          | Some post \<Rightarrow> dedupeTags codeUnitCompare (snd e) (opt_sortTags ?opts)
                         = dedupeTags codeUnitCompare (frontMatterTags post) (opt_sortTags ?opts)) ?idx)"
    by (rule conjunct1)
  with f have "unchanged (syncFrontmatterFromTags CHR ''/'' codeUnitCompare (\<lambda>p. True) ?idx ?posts ?opts)
      = [''p.md'']"
    by (simp only:)
  with consistent_codeUnitCompare t d show ?thesis by blast
qed

text \<open>
  C4, as claimed: an entry outside the loaded corpus is missing exactly when its file is
  absent from disk. With a path filter active the synchronizer does not look at the
  disk: the entry is reported as filtered out although no file exists.
\<close>

theorem sync_missing_counterexample:
  "missing (syncFrontmatterFromTags CHR ''/'' codeUnitCompare (\<lambda>p. False)
        [(''gone.md'', [''x''])] []
        \<lparr>opt_dryRun = False, opt_filter = ''abc'', opt_includeDrafts = False, opt_sortTags = False\<rparr>) = []
   \<and> filteredOut (syncFrontmatterFromTags CHR ''/'' codeUnitCompare (\<lambda>p. False)
        [(''gone.md'', [''x''])] []
        \<lparr>opt_dryRun = False, opt_filter = ''abc'', opt_includeDrafts = False, opt_sortTags = False\<rparr>)
       = [''gone.md'']"
  by code_simp

text \<open>
  C4, amended. An entry of the index whose identifier is not in the loaded corpus is
  reported as missing exactly when no path filter is active and its file is absent from
  disk, and as filtered out exactly when a path filter is active or its file is present
  on disk.
\<close>

theorem sync_missing_iff:
  "missing (syncFrontmatterFromTags sep zhCN fe idx posts options) =
     map (entryPath sep)
       (filter (\<lambda>e. postMap sep posts (entryPath sep e) = None \<and> trim (opt_filter options) = []
                     \<and> \<not> fe (entryPath sep e)) idx)
   \<and> filteredOut (syncFrontmatterFromTags sep zhCN fe idx posts options) =
     map (entryPath sep)
       (filter (\<lambda>e. postMap sep posts (entryPath sep e) = None
                        \<and> (fe (entryPath sep e) \<or> trim (opt_filter options) \<noteq> [])) idx)"
proof (intro conjI)
  show "missing (syncFrontmatterFromTags sep zhCN fe idx posts options) =
     map (entryPath sep)
       (filter (\<lambda>e. postMap sep posts (entryPath sep e) = None \<and> trim (opt_filter options) = []
                     \<and> \<not> fe (entryPath sep e)) idx)"
    by (simp add: sync_fold fold_syncEntry_missing)
  show "filteredOut (syncFrontmatterFromTags sep zhCN fe idx posts options) =
     map (entryPath sep)
       (filter (\<lambda>e. postMap sep posts (entryPath sep e) = None
                        \<and> (fe (entryPath sep e) \<or> trim (opt_filter options) \<noteq> [])) idx)"
    by (simp add: sync_fold fold_syncEntry_filteredOut)
qed

section \<open>Generation\<close>

lemma callChatCompletion_failure:
  "isFailure outcome \<Longrightarrow>
   resp_tags (callChatCompletion parse config outcome) = []
   \<and> resp_raw (callChatCompletion parse config outcome) = None
   \<and> resp_error (callChatCompletion parse config outcome) \<noteq> None"
  by (cases outcome) (simp_all add: callChatCompletion_def isFailure_def)

lemma attempts_first:
  assumes "healthy (env_onPostProcessed env)" "0 \<le> retries"
  shows "attempts env post h retries 0 None st =
     Inr (st\<lparr>results := (results st)(relativePath post \<mapsto> firstResponse env post),
             merges := (merges st)(relativePath post \<mapsto>
               mergeTags (env_zhCN env) (env_regexp env) (frontMatterTags post)
                 (resp_tags (firstResponse env post)) (Some h) (env_config env)),
             historicalTagsMap := (historicalTagsMap st)(relativePath post \<mapsto>
               tags (mergeTags (env_zhCN env) (env_regexp env) (frontMatterTags post)
                 (resp_tags (firstResponse env post)) (Some h) (env_config env))),
             cbState := fst (env_onPostProcessed env post
               (mergeTags (env_zhCN env) (env_regexp env) (frontMatterTags post)
                 (resp_tags (firstResponse env post)) (Some h) (env_config env)) (cbState st))\<rparr>)"
proof -
  let ?m = "mergeTags (env_zhCN env) (env_regexp env) (frontMatterTags post)
                 (resp_tags (firstResponse env post)) (Some h) (env_config env)"
  obtain cb e where cb: "env_onPostProcessed env post ?m (cbState st) = (cb, e)"
    by (cases "env_onPostProcessed env post ?m (cbState st)")
  with assms(1) have "e = None" unfolding healthy_def by (metis snd_conv)
  with cb assms(2) show ?thesis
    by (subst attempts.simps) (simp add: Let_def firstResponse_def)
qed

lemma processPost_healthy:
  assumes "healthy (env_onPostProcessed env)" "env_retries env = None"
  shows "processPost env post st =
     Inr (st\<lparr>results := (results st)(relativePath post \<mapsto> firstResponse env post),
             merges := (merges st)(relativePath post \<mapsto>
               mergeTags (env_zhCN env) (env_regexp env) (frontMatterTags post)
                 (resp_tags (firstResponse env post)) (Some (historyOf (historicalTagsMap st) post))
                 (env_config env)),
             historicalTagsMap := (historicalTagsMap st)(relativePath post \<mapsto>
               tags (mergeTags (env_zhCN env) (env_regexp env) (frontMatterTags post)
                 (resp_tags (firstResponse env post)) (Some (historyOf (historicalTagsMap st) post))
                 (env_config env))),
             cbState := fst (env_onPostProcessed env post
               (mergeTags (env_zhCN env) (env_regexp env) (frontMatterTags post)
                 (resp_tags (firstResponse env post)) (Some (historyOf (historicalTagsMap st) post))
                 (env_config env)) (cbState st))\<rparr>)"
  using assms by (simp add: processPost_def Let_def attempts_first historyOf_def)

lemma processAll_healthy:
  assumes "healthy (env_onPostProcessed env)" "env_retries env = None"
  shows "\<exists>st'. processAll env posts st = Inr st' \<and> delays st' = delays st
     \<and> (\<forall>q. q \<notin> relativePath ` set posts \<longrightarrow>
            results st' q = results st q \<and> merges st' q = merges st q
            \<and> historicalTagsMap st' q = historicalTagsMap st q)
     \<and> (distinct (map relativePath posts) \<longrightarrow>
          (\<forall>p\<in>set posts.
             results st' (relativePath p) = Some (firstResponse env p)
             \<and> merges st' (relativePath p) =
                 Some (mergeTags (env_zhCN env) (env_regexp env) (frontMatterTags p)
                   (resp_tags (firstResponse env p)) (Some (historyOf (historicalTagsMap st) p))
                   (env_config env))))"
proof (induction posts arbitrary: st)
  case Nil
  show ?case by simp
next
  case (Cons p ps)
  let ?m = "mergeTags (env_zhCN env) (env_regexp env) (frontMatterTags p)
      (resp_tags (firstResponse env p)) (Some (historyOf (historicalTagsMap st) p)) (env_config env)"
  define st1 where "st1 = st\<lparr>results := (results st)(relativePath p \<mapsto> firstResponse env p),
      merges := (merges st)(relativePath p \<mapsto> ?m),
      historicalTagsMap := (historicalTagsMap st)(relativePath p \<mapsto> tags ?m),
      cbState := fst (env_onPostProcessed env p ?m (cbState st))\<rparr>"
  have step: "processPost env p st = Inr st1"
    unfolding st1_def by (rule processPost_healthy [OF assms])
  from Cons [of st1] obtain st' where run: "processAll env ps st1 = Inr st'"
    and d: "delays st' = delays st1"
    and keep: "\<And>q. q \<notin> relativePath ` set ps \<Longrightarrow>
        results st' q = results st1 q \<and> merges st' q = merges st1 q
        \<and> historicalTagsMap st' q = historicalTagsMap st1 q"
    and fin: "distinct (map relativePath ps) \<Longrightarrow> (\<forall>p'\<in>set ps.
        results st' (relativePath p') = Some (firstResponse env p')
        \<and> merges st' (relativePath p') =
            Some (mergeTags (env_zhCN env) (env_regexp env) (frontMatterTags p')
              (resp_tags (firstResponse env p')) (Some (historyOf (historicalTagsMap st1) p'))
              (env_config env)))"
    by blast
  have all: "processAll env (p # ps) st = Inr st'" using step run by simp
  have d': "delays st' = delays st" using d by (simp add: st1_def)
  have keep': "results st' q = results st q \<and> merges st' q = merges st q
        \<and> historicalTagsMap st' q = historicalTagsMap st q"
    if "q \<notin> relativePath ` set (p # ps)" for q
    using that keep [of q] by (simp add: st1_def)
  have fin': "\<forall>p'\<in>set (p # ps).
        results st' (relativePath p') = Some (firstResponse env p')
        \<and> merges st' (relativePath p') =
            Some (mergeTags (env_zhCN env) (env_regexp env) (frontMatterTags p')
              (resp_tags (firstResponse env p')) (Some (historyOf (historicalTagsMap st) p'))
              (env_config env))"
    if dist: "distinct (map relativePath (p # ps))"
  proof
    fix p'
    assume mem: "p' \<in> set (p # ps)"
    show "results st' (relativePath p') = Some (firstResponse env p')
        \<and> merges st' (relativePath p') =
            Some (mergeTags (env_zhCN env) (env_regexp env) (frontMatterTags p')
              (resp_tags (firstResponse env p')) (Some (historyOf (historicalTagsMap st) p'))
              (env_config env))"
    proof (cases "p' \<in> set ps")
      case True
      with dist have ne: "relativePath p' \<noteq> relativePath p" by (metis distinct.simps(2) image_eqI list.simps(9) set_map)
      then have "historyOf (historicalTagsMap st1) p' = historyOf (historicalTagsMap st) p'"
        by (simp add: historyOf_def st1_def)
      with fin True dist show ?thesis by simp
    next
      case False
      with mem have eq: "p' = p" by simp
      from dist have "relativePath p \<notin> relativePath ` set ps" by simp
      from keep [OF this] show ?thesis by (simp add: eq st1_def)
    qed
  qed
  from all d' keep' fin' show ?case by blast
qed

lemma generateTags_healthy:
  assumes "apiKey (env_config env) \<noteq> []" "healthy (env_onPostProcessed env)" "env_retries env = None"
  shows "\<exists>st. generateTags env posts h cb0 = Inr st \<and> delays st = []
     \<and> (distinct (map relativePath posts) \<longrightarrow>
          (\<forall>p\<in>set posts.
             results st (relativePath p) = Some (firstResponse env p)
             \<and> merges st (relativePath p) =
                 Some (mergeTags (env_zhCN env) (env_regexp env) (frontMatterTags p)
                   (resp_tags (firstResponse env p)) (Some (historyOf h p)) (env_config env))))"
proof -
  let ?st0 = "\<lparr>results = Map.empty, merges = Map.empty, historicalTagsMap = h,
              delays = [], cbState = cb0\<rparr>"
  from processAll_healthy [OF assms(2,3), of posts ?st0] assms(1)
  show ?thesis by (simp add: generateTags_def) blast
qed

lemma healthy_const: "healthy (\<lambda>post merge st. (st, None))"
  by (simp add: healthy_def)

text \<open>
  C1. The claim: after a transport or HTTP failure the orchestrator retries, up to two
  further attempts, each after a backoff delay. The code: \<open>callChatCompletion\<close> returns
  the failure in its result, \<open>generateTags\<close> records it and returns from the loop, and
  the \<open>catch\<close> that counts the attempts is reached only when the completion callback
  throws. So with a callback that does not throw no delay is ever slept, whatever the
  adapter does; an adapter that fails twice and would succeed on the third attempt is
  called once, and the document keeps the failure and its own tags.
\<close>

theorem retry_not_taken_on_failure:
  "map_sum id delays
     (generateTags (env\<lparr>env_onPostProcessed := (\<lambda>post merge st. (st, None)), env_retries := None\<rparr>)
        posts h cb0)
     = (if apiKey (env_config env) = [] then Inl (Error ''TAG_SYNC_API_KEY is not set.'') else Inr [])
   \<and> (case generateTags
         \<lparr>env_zhCN = codeUnitCompare, env_regexp = (\<lambda>p. None), env_parse = (\<lambda>content. [''generated'']),
          env_fetch = (\<lambda>path n. if n < 2 then HttpNotOk 500 ''busy'' else HttpOk ''[generated]''),
          env_config = \<lparr>sortTags = False, taxonomyRules = None, apiKey = ''k'', dryRun = False,
                         filter_cfg = []\<rparr>,
          env_retries = None, env_onPostProcessed = (\<lambda>post merge st. (st, None))\<rparr>
         [\<lparr>relativePath = ''a.md'', frontMatterTags = [''own'']\<rparr>] Map.empty () of
        Inl e \<Rightarrow> False
      | Inr st \<Rightarrow> delays st = []
          \<and> map_option resp_error (results st ''a.md'') = Some (Some (HttpError 500 ''busy''))
          \<and> map_option tags (merges st ''a.md'') = Some [''own''])"
proof (intro conjI)
  let ?env = "env\<lparr>env_onPostProcessed := (\<lambda>post merge st. (st, None)), env_retries := None\<rparr>"
  show "map_sum id delays (generateTags ?env posts h cb0)
     = (if apiKey (env_config env) = [] then Inl (Error ''TAG_SYNC_API_KEY is not set.'') else Inr [])"
  proof (cases "apiKey (env_config env) = []")
    case True
    then show ?thesis by (simp add: generateTags_def)
  next
    case False
    then have "apiKey (env_config ?env) \<noteq> []" by simp
    from generateTags_healthy [OF this, of posts h cb0] healthy_const
    obtain st where "generateTags ?env posts h cb0 = Inr st" "delays st = []" by auto
    with False show ?thesis by simp
  qed
  show "case generateTags
         \<lparr>env_zhCN = codeUnitCompare, env_regexp = (\<lambda>p. None), env_parse = (\<lambda>content. [''generated'']),
          env_fetch = (\<lambda>path n. if n < 2 then HttpNotOk 500 ''busy'' else HttpOk ''[generated]''),
          env_config = \<lparr>sortTags = False, taxonomyRules = None, apiKey = ''k'', dryRun = False,
                         filter_cfg = []\<rparr>,
          env_retries = None, env_onPostProcessed = (\<lambda>post merge st. (st, None))\<rparr>
         [\<lparr>relativePath = ''a.md'', frontMatterTags = [''own'']\<rparr>] Map.empty () of
        Inl e \<Rightarrow> False
      | Inr st \<Rightarrow> delays st = []
          \<and> map_option resp_error (results st ''a.md'') = Some (Some (HttpError 500 ''busy''))
          \<and> map_option tags (merges st ''a.md'') = Some [''own'']"
    by code_simp
qed

lemma backoff_when_callback_throws:
  "(case generateTags
         \<lparr>env_zhCN = codeUnitCompare, env_regexp = (\<lambda>p. None), env_parse = (\<lambda>content. [''generated'']),
          env_fetch = (\<lambda>path n. HttpOk ''[generated]''),
          env_config = \<lparr>sortTags = False, taxonomyRules = None, apiKey = ''k'', dryRun = False,
                         filter_cfg = []\<rparr>,
          env_retries = None,
          env_onPostProcessed = (\<lambda>post merge n. (Suc n, if n < 2 then Some (Error ''EIO'') else None))\<rparr>
         [\<lparr>relativePath = ''a.md'', frontMatterTags = [''own'']\<rparr>] Map.empty 0 of
        Inl e \<Rightarrow> False
      | Inr st \<Rightarrow> delays st = [2000, 4000] \<and> cbState st = 3)
   \<and> (case generateTags
         \<lparr>env_zhCN = codeUnitCompare, env_regexp = (\<lambda>p. None), env_parse = (\<lambda>content. [''generated'']),
          env_fetch = (\<lambda>path n. HttpOk ''[generated]''),
          env_config = \<lparr>sortTags = False, taxonomyRules = None, apiKey = ''k'', dryRun = False,
                         filter_cfg = []\<rparr>,
          env_retries = None,
          env_onPostProcessed = (\<lambda>post merge n. (Suc n, Some (Error ''EIO'')))\<rparr>
         [\<lparr>relativePath = ''a.md'', frontMatterTags = [''own'']\<rparr>] Map.empty (0 :: nat) of
        Inl e \<Rightarrow> e = Error ''EIO''
      | Inr st \<Rightarrow> False)"
  by code_simp

section \<open>Objects and the index\<close>

lemma set_insertIndexKey: "set (insertIndexKey k v m) = insert (k, v) (set m)"
  by (induction m) (auto split: if_splits)

lemma map_of_insertIndexKey: "k' \<noteq> k \<Longrightarrow> map_of (insertIndexKey k v m) k' = map_of m k'"
  by (induction m) auto

lemma keys_obj_set: "fst ` set (obj_set m k v) = insert k (fst ` set m)"
proof (cases "map_of m k")
  case None
  then show ?thesis by (auto simp: obj_set_def set_insertIndexKey)
next
  case (Some old)
  then have "(k, old) \<in> set m" by (rule map_of_SomeD)
  then have "k \<in> fst ` set m" by force
  moreover have "fst ` set (map (\<lambda>(k', v'). if k' = k then (k', v) else (k', v')) m) = fst ` set m"
    by (induction m) auto
  ultimately show ?thesis using Some by (auto simp: obj_set_def)
qed

lemma map_of_obj_set: "k' \<noteq> k \<Longrightarrow> map_of (obj_set m k v) k' = map_of m k'"
proof -
  assume ne: "k' \<noteq> k"
  have "map_of (map (\<lambda>(a, b). if a = k then (a, v) else (a, b)) m) k' = map_of m k'"
    using ne by (induction m) auto
  with ne show ?thesis
    by (auto simp: obj_set_def map_of_insertIndexKey map_add_def split: option.splits)
qed

lemma keys_fromEntries_aux:
  "fst ` set (fold (\<lambda>(k, v) obj. obj_set obj k v) es m) = fst ` set es \<union> fst ` set m"
proof (induction es arbitrary: m)
  case Nil
  show ?case by simp
next
  case (Cons e es)
  obtain k v where e: "e = (k, v)" by (cases e)
  have "fst ` set (fold (\<lambda>(k, v) obj. obj_set obj k v) es (obj_set m k v))
      = fst ` set es \<union> insert k (fst ` set m)"
    by (simp only: Cons keys_obj_set)
  then show ?case by (simp add: e)
qed

lemma keys_fromEntries: "fst ` set (fromEntries es) = fst ` set es"
  by (simp add: fromEntries_def keys_fromEntries_aux)

lemma set_jsSort_entries: "set (jsSort cmp es) = set es"
  by (rule set_jsSort)

lemma keys_sortTagsMap: "fst ` set (sortTagsMap enUS m) = fst ` set m"
  by (simp add: sortTagsMap_def keys_fromEntries set_jsSort)

lemma prune_fold:
  "fold (\<lambda>key obj. if key \<notin> P then obj_delete obj key else obj) ks obj
     = filter (\<lambda>e. fst e \<in> P \<or> fst e \<notin> set ks) obj"
proof (induction ks arbitrary: obj)
  case Nil
  show ?case by simp
next
  case (Cons k ks)
  show ?case
    by (cases "k \<in> P") (auto simp: Cons obj_delete_def intro: filter_cong)
qed

lemma trim_Nil: "trim [] = []"
  by (simp add: trim_def trimStart_def trimEnd_def)

lemma prune_spec:
  "prune config posts m =
     (if trim (filter_cfg config) = [] then filter (\<lambda>e. fst e \<in> relativePath ` set posts) m else m)"
proof -
  have "filter (\<lambda>e. fst e \<in> relativePath ` set posts \<or> fst e \<notin> set (map fst m)) m
      = filter (\<lambda>e. fst e \<in> relativePath ` set posts) m"
    by (auto intro: filter_cong)
  then show ?thesis
    using trim_Nil by (auto simp: prune_def Let_def prune_fold)
qed

section \<open>A run\<close>

lemma fromEntries_plain_aux:
  assumes "distinct (map fst es)" "\<not> list_ex isArrayIndex (map fst es)"
    "fst ` set es \<inter> fst ` set m = {}"
  shows "fold (\<lambda>(k, v) obj. obj_set obj k v) es m = m @ es"
  using assms
proof (induction es arbitrary: m)
  case Nil
  show ?case by simp
next
  case (Cons e es)
  obtain k v where e: "e = (k, v)" by (cases e)
  from Cons.prems(3) have "k \<notin> fst ` set m" by (auto simp: e)
  then have none: "map_of m k = None" by (simp add: map_of_eq_None_iff)
  from Cons.prems(2) have "\<not> isArrayIndex k" by (simp add: e)
  with none have step: "obj_set m k v = m @ [(k, v)]" by (simp add: obj_set_def)
  have "fold (\<lambda>(k, v) obj. obj_set obj k v) es (m @ [(k, v)]) = (m @ [(k, v)]) @ es"
  proof (rule Cons.IH)
    show "distinct (map fst es)" using Cons.prems(1) by simp
    show "\<not> list_ex isArrayIndex (map fst es)" using Cons.prems(2) by simp
    show "fst ` set es \<inter> fst ` set (m @ [(k, v)]) = {}"
      using Cons.prems(1,3) by (auto simp: e)
  qed
  then show ?case by (simp add: e step)
qed

lemma fromEntries_plain: "plainNames es \<Longrightarrow> fromEntries es = es"
  using fromEntries_plain_aux [of es "[]"] by (simp add: plainNames_def fromEntries_def)

lemma arrayIndex_examples:
  "isArrayIndex ''1''" "isArrayIndex ''9''" "isArrayIndex ''10''"
  "indexValue ''1'' = 1" "indexValue ''9'' = 9" "indexValue ''10'' = 10"
  "\<not> isArrayIndex ''b''" "\<not> isArrayIndex ''a.md''"
  by (simp_all add: isArrayIndex_def isDigit_def indexValue_def)

lemma order_example:
  "fromEntries [(''b'', x), (''1'', y)] = [(''1'', y), (''b'', x)]"
  by (simp add: fromEntries_def obj_set_def arrayIndex_examples)

section \<open>Classification\<close>

lemma ruleMatches_code: "ruleMatches rx rule tag \<longleftrightarrow> includesMatch rule tag \<or> patternMatch rx rule tag"
  by (auto simp: ruleMatches_def includesMatch_def patternMatch_def tagKey_def Let_def
      split: option.splits)

lemma assignCategory_find:
  "assignCategory rx rules tag =
     map_option fst (find (\<lambda>entry. ruleMatches rx (snd entry) tag) rules)"
  by (induction rules) (auto simp: ruleMatches_code)

lemma assignCategory_first:
  "(case assignCategory rx rules tag of Some category \<Rightarrow> category | None \<Rightarrow> ''uncategorized'')
     = firstCategory (ruleMatches rx) rules tag"
  by (simp add: assignCategory_find firstCategory_def split: option.splits)

lemma classify_loop_spec:
  "classify_loop rx rules m ts t =
     (if t \<in> set ts then Some (firstCategory (ruleMatches rx) rules t) else m t)"
proof (induction ts arbitrary: m)
  case Nil
  show ?case by simp
next
  case (Cons x ts)
  show ?case
    using assignCategory_first [of rx rules x]
    by (cases "assignCategory rx rules x") (simp_all add: Cons)
qed

lemma classifyTags_none:
  "classifyTags rx ts None t = (if t \<in> set ts then Some ''uncategorized'' else None)"
proof (induction ts)
  case Nil
  show ?case by (simp add: classifyTags_def)
next
  case (Cons x ts)
  then show ?case by (simp add: classifyTags_def)
qed

lemma classifyTags_spec:
  "classifyTags rx ts taxonomy t =
     (if t \<in> set ts
      then Some (case taxonomy of None \<Rightarrow> ''uncategorized''
                 | Some rules \<Rightarrow> firstCategory (ruleMatches rx) (fromEntries rules) t)
      else None)"
  by (cases taxonomy) (simp_all add: classifyTags_none, simp add: classifyTags_def classify_loop_spec)

lemma classification_mergeTags:
  "classification (mergeTags zhCN rx own proposed historical config) =
     classifyTags rx (tags (mergeTags zhCN rx own proposed historical config)) (taxonomyRules config)"
  by (simp add: mergeTags_def Let_def)

lemma malformed_pattern:
  assumes "rx p = None"
  shows "ruleMatches rx (rule\<lparr>rule_pattern := Some p\<rparr>) tag
       = ruleMatches rx (rule\<lparr>rule_pattern := None\<rparr>) tag"
  using assms by (simp add: ruleMatches_def)

lemma find_malformed:
  assumes "rx p = None"
  shows "map_option fst (find (\<lambda>entry. ruleMatches rx (snd entry) tag)
            (pre @ (c, rule\<lparr>rule_pattern := Some p\<rparr>) # post))
       = map_option fst (find (\<lambda>entry. ruleMatches rx (snd entry) tag)
            (pre @ (c, rule\<lparr>rule_pattern := None\<rparr>) # post))"
  using assms malformed_pattern [of rx p rule tag] by (induction pre) simp_all

lemma firstCategory_malformed:
  assumes "rx p = None"
  shows "firstCategory (ruleMatches rx) (pre @ (c, rule\<lparr>rule_pattern := Some p\<rparr>) # post) tag
       = firstCategory (ruleMatches rx) (pre @ (c, rule\<lparr>rule_pattern := None\<rparr>) # post) tag"
proof -
  have "firstCategory m rs t = (case map_option fst (find (\<lambda>entry. m (snd entry) t) rs) of
      None \<Rightarrow> ''uncategorized'' | Some x \<Rightarrow> x)" for m rs t
    by (simp add: firstCategory_def split: option.splits)
  then show ?thesis using assms by (simp only: find_malformed [of rx p])
qed


lemma plainNames_pattern:
  "plainNames (pre @ (c, rule\<lparr>rule_pattern := q\<rparr>) # post) = plainNames (pre @ (c, rule) # post)"
  by (simp add: plainNames_def)

lemma classifyTags_plain:
  "plainNames declared \<Longrightarrow>
   classifyTags rx ts (Some declared) t =
     (if t \<in> set ts then Some (firstCategory (ruleMatches rx) declared t) else None)"
  by (simp add: classifyTags_spec fromEntries_plain)

lemma classifyTags_malformed:
  assumes "plainNames (pre @ (c, rule) # post)" "rx p = None"
  shows "classifyTags rx ts (Some (pre @ (c, rule\<lparr>rule_pattern := Some p\<rparr>) # post))
       = classifyTags rx ts (Some (pre @ (c, rule\<lparr>rule_pattern := None\<rparr>) # post))"
proof
  fix t
  from assms(1) have a: "plainNames (pre @ (c, rule\<lparr>rule_pattern := Some p\<rparr>) # post)"
    and b: "plainNames (pre @ (c, rule\<lparr>rule_pattern := None\<rparr>) # post)"
    by (simp_all only: plainNames_pattern)
  show "classifyTags rx ts (Some (pre @ (c, rule\<lparr>rule_pattern := Some p\<rparr>) # post)) t
       = classifyTags rx ts (Some (pre @ (c, rule\<lparr>rule_pattern := None\<rparr>) # post)) t"
    using assms(2) by (simp only: classifyTags_plain [OF a] classifyTags_plain [OF b]
        firstCategory_malformed [of rx p])
qed

text \<open>
  C8, as claimed: the category of a tag is the first category, in declared order, whose
  includes contain the tag up to case or whose pattern matches it. The code compares an
  include with the tag after normalizing both, so the include \<open>type_script\<close> takes the
  tag \<open>type script\<close>, which no include equals up to case. And it walks
  \<open>Object.entries\<close> of the taxonomy, which lists a category named \<open>1\<close> before one named
  \<open>b\<close> that was declared first.
\<close>

theorem classification_claim_counterexample:
  "classification
     (mergeTags codeUnitCompare (\<lambda>p. None) [''type script''] [] None
        \<lparr>sortTags = False,
         taxonomyRules = Some [(''lang'', \<lparr>rule_includes = Some [''type_script''], rule_pattern = None\<rparr>)],
         apiKey = ''k'', dryRun = False, filter_cfg = []\<rparr>) ''type script'' = Some ''lang''
   \<and> firstCategory (claimedMatch (\<lambda>p. None))
        [(''lang'', \<lparr>rule_includes = Some [''type_script''], rule_pattern = None\<rparr>)] ''type script''
       = ''uncategorized''
   \<and> classifyTags (\<lambda>p. None) [''x'']
        (Some [(''b'', \<lparr>rule_includes = Some [''x''], rule_pattern = None\<rparr>),
               (''1'', \<lparr>rule_includes = Some [''x''], rule_pattern = None\<rparr>)]) ''x'' = Some ''1''
   \<and> firstCategory (claimedMatch (\<lambda>p. None))
        [(''b'', \<lparr>rule_includes = Some [''x''], rule_pattern = None\<rparr>),
         (''1'', \<lparr>rule_includes = Some [''x''], rule_pattern = None\<rparr>)] ''x'' = ''b''"
proof (intro conjI)
  let ?lang = "[(''lang'', \<lparr>rule_includes = Some [''type_script''], rule_pattern = None\<rparr>)]"
  have plain: "plainNames ?lang"
    by (simp add: plainNames_def isArrayIndex_def isDigit_def)
  have "tags (mergeTags codeUnitCompare (\<lambda>p. None) [''type script''] [] None
        \<lparr>sortTags = False, taxonomyRules = Some ?lang, apiKey = ''k'', dryRun = False, filter_cfg = []\<rparr>)
      = [''type script'']"
    by code_simp
  moreover have "firstCategory (ruleMatches (\<lambda>p. None)) ?lang ''type script'' = ''lang''"
    by code_simp
  ultimately show "classification
     (mergeTags codeUnitCompare (\<lambda>p. None) [''type script''] [] None
        \<lparr>sortTags = False, taxonomyRules = Some ?lang, apiKey = ''k'', dryRun = False, filter_cfg = []\<rparr>)
       ''type script'' = Some ''lang''"
    by (simp add: classification_mergeTags classifyTags_plain [OF plain])
  show "firstCategory (claimedMatch (\<lambda>p. None)) ?lang ''type script'' = ''uncategorized''"
    by code_simp
  let ?b1 = "[(''b'', \<lparr>rule_includes = Some [''x''], rule_pattern = None\<rparr>),
              (''1'', \<lparr>rule_includes = Some [''x''], rule_pattern = None\<rparr>)]"
  have "firstCategory (ruleMatches (\<lambda>p. None)) (fromEntries ?b1) ''x'' = ''1''"
    unfolding order_example by code_simp
  then show "classifyTags (\<lambda>p. None) [''x''] (Some ?b1) ''x'' = Some ''1''"
    by (simp add: classifyTags_spec)
  show "firstCategory (claimedMatch (\<lambda>p. None)) ?b1 ''x'' = ''b''"
    by code_simp
qed

text \<open>
  C8, amended. For a taxonomy whose category names are distinct and none of them an array
  index, every tag of the list gets the first category, in declared order, whose
  includes contain a candidate with the tag's key (both normalized, then compared
  without case) or whose pattern, non-empty and well-formed, matches the tag, and
  \<open>uncategorized\<close> when no category matches. Under an absent taxonomy every tag is
  \<open>uncategorized\<close>. The classification of a merge result is that of its tags. A
  malformed pattern counts as no pattern of that one category: the classification is
  what it would be without it.
\<close>

theorem classification_first_match:
  "(plainNames declared \<and> t \<in> set ts \<longrightarrow>
      classifyTags rx ts (Some declared) t = Some (firstCategory (ruleMatches rx) declared t))
   \<and> (t \<in> set ts \<longrightarrow> classifyTags rx ts None t = Some ''uncategorized'')
   \<and> classification (mergeTags zhCN rx own proposed historical config) =
       classifyTags rx (tags (mergeTags zhCN rx own proposed historical config)) (taxonomyRules config)
   \<and> (plainNames (pre @ (c, rule) # post) \<and> rx p = None \<longrightarrow>
      classifyTags rx ts (Some (pre @ (c, rule\<lparr>rule_pattern := Some p\<rparr>) # post))
        = classifyTags rx ts (Some (pre @ (c, rule\<lparr>rule_pattern := None\<rparr>) # post)))"
  by (simp add: classifyTags_plain classifyTags_none classification_mergeTags classifyTags_malformed)

theorem classification_first_match_witness:
  "plainNames [(''broken'', \<lparr>rule_includes = None, rule_pattern = Some ''(''\<rparr>),
               (''lang'', \<lparr>rule_includes = Some [''Type_Script''], rule_pattern = None\<rparr>),
               (''web'', \<lparr>rule_includes = None, rule_pattern = Some ''script''\<rparr>)]
   \<and> ''type script'' \<in> set [''other'', ''type script'']
   \<and> (if ''('' = ''script'' then Some (\<lambda>t. t = ''type script'') else None) = None
   \<and> classifyTags (\<lambda>p. if p = ''script'' then Some (\<lambda>t. t = ''type script'') else None)
        [''other'', ''type script'']
        (Some [(''broken'', \<lparr>rule_includes = None, rule_pattern = Some ''(''\<rparr>),
               (''lang'', \<lparr>rule_includes = Some [''Type_Script''], rule_pattern = None\<rparr>),
               (''web'', \<lparr>rule_includes = None, rule_pattern = Some ''script''\<rparr>)])
        ''type script'' = Some ''lang''
   \<and> classifyTags (\<lambda>p. if p = ''script'' then Some (\<lambda>t. t = ''type script'') else None)
        [''other'', ''type script'']
        (Some ([] @ (''broken'', \<lparr>rule_includes = None, rule_pattern = None\<rparr>\<lparr>rule_pattern := Some ''(''\<rparr>) #
          [(''web'', \<lparr>rule_includes = None, rule_pattern = Some ''script''\<rparr>)])) ''type script''
       = Some ''web''"
proof -
  let ?rx = "\<lambda>p. if p = ''script'' then Some (\<lambda>t. t = ''type script'') else None"
  let ?rules = "[(''broken'', \<lparr>rule_includes = None, rule_pattern = Some ''(''\<rparr>),
               (''lang'', \<lparr>rule_includes = Some [''Type_Script''], rule_pattern = None\<rparr>),
               (''web'', \<lparr>rule_includes = None, rule_pattern = Some ''script''\<rparr>)]"
  let ?r0 = "\<lparr>rule_includes = None, rule_pattern = None\<rparr>"
  let ?post = "[(''web'', \<lparr>rule_includes = None, rule_pattern = Some ''script''\<rparr>)]"
  have plain: "plainNames ?rules"
    by (simp add: plainNames_def isArrayIndex_def isDigit_def)
  have plain2: "plainNames ([] @ (''broken'', ?r0) # ?post)"
    by (simp add: plainNames_def isArrayIndex_def isDigit_def)
  have mem: "''type script'' \<in> set [''other'', ''type script'']" by simp
  have bad: "?rx ''('' = None" by simp
  have f1: "firstCategory (ruleMatches ?rx) ?rules ''type script'' = ''lang''" by code_simp
  have f2: "firstCategory (ruleMatches ?rx) ([] @ (''broken'', ?r0\<lparr>rule_pattern := None\<rparr>) # ?post)
      ''type script'' = ''web''"
    by code_simp
  note inst = classification_first_match [of ?rules "''type script''" "[''other'', ''type script'']" ?rx
      codeUnitCompare "[]" "[]" None
      "\<lparr>sortTags = False, taxonomyRules = None, apiKey = ''k'', dryRun = False, filter_cfg = []\<rparr>"
      "[]" "''broken''" ?r0 ?post "''(''"]
  from inst plain mem have c1: "classifyTags ?rx [''other'', ''type script''] (Some ?rules) ''type script''
      = Some (firstCategory (ruleMatches ?rx) ?rules ''type script'')"
    by blast
  from inst plain2 bad have "classifyTags ?rx [''other'', ''type script'']
        (Some ([] @ (''broken'', ?r0\<lparr>rule_pattern := Some ''(''\<rparr>) # ?post))
      = classifyTags ?rx [''other'', ''type script'']
        (Some ([] @ (''broken'', ?r0\<lparr>rule_pattern := None\<rparr>) # ?post))"
    by blast
  moreover have "plainNames ([] @ (''broken'', ?r0\<lparr>rule_pattern := None\<rparr>) # ?post)"
    by (simp add: plainNames_def isArrayIndex_def isDigit_def)
  then have "classifyTags ?rx [''other'', ''type script'']
        (Some ([] @ (''broken'', ?r0\<lparr>rule_pattern := None\<rparr>) # ?post)) ''type script''
      = Some (firstCategory (ruleMatches ?rx) ([] @ (''broken'', ?r0\<lparr>rule_pattern := None\<rparr>) # ?post)
          ''type script'')"
    using mem by (simp only: classifyTags_plain if_True)
  ultimately have c2: "classifyTags ?rx [''other'', ''type script'']
        (Some ([] @ (''broken'', ?r0\<lparr>rule_pattern := Some ''(''\<rparr>) # ?post)) ''type script'' = Some ''web''"
    using f2 by (simp only:)
  from c1 f1 have c1': "classifyTags ?rx [''other'', ''type script''] (Some ?rules) ''type script'' = Some ''lang''"
    by (simp only:)
  from plain mem bad c1' c2 show ?thesis by (simp only:)
qed

text \<open>
  C9. The claim: when the attempts of a document are all failures and the retries are
  exhausted, the last error is recorded, the document is merged with no proposed tag,
  and the failure never leaves the orchestration. The code, first, makes one attempt
  only when the adapter fails (as for C1): with an adapter that answers 500, 501, 502 on
  successive attempts the error recorded is that of the first attempt, after no delay.
  Second, the retries are exhausted only when the completion callback throws on every
  attempt; the fallback then records the callback's last error, merges with no proposed
  tag (also when the adapter had answered) and calls the callback once more outside
  the \<open>try\<close>: when that call throws too, the exception leaves \<open>generateTags\<close> and the
  run.
\<close>

theorem failed_generation_divergence:
  "(case generateTags
         \<lparr>env_zhCN = codeUnitCompare, env_regexp = (\<lambda>p. None), env_parse = (\<lambda>content. [''generated'']),
          env_fetch = (\<lambda>path n. HttpNotOk (500 + n) ''x''),
          env_config = \<lparr>sortTags = False, taxonomyRules = None, apiKey = ''k'', dryRun = False,
                         filter_cfg = []\<rparr>,
          env_retries = None, env_onPostProcessed = (\<lambda>post merge st. (st, None))\<rparr>
         [\<lparr>relativePath = ''a.md'', frontMatterTags = [''own'']\<rparr>]
         (map_of [(''a.md'', [''Old''])]) () of
        Inl e \<Rightarrow> False
      | Inr st \<Rightarrow> delays st = []
          \<and> results st ''a.md'' = Some \<lparr>resp_tags = [], resp_raw = None,
                                       resp_error = Some (HttpError 500 ''x'')\<rparr>
          \<and> map_option tags (merges st ''a.md'') = Some [''Old'', ''own''])
   \<and> (case generateTags
         \<lparr>env_zhCN = codeUnitCompare, env_regexp = (\<lambda>p. None), env_parse = (\<lambda>content. [''generated'']),
          env_fetch = (\<lambda>path n. HttpNotOk (500 + n) ''x''),
          env_config = \<lparr>sortTags = False, taxonomyRules = None, apiKey = ''k'', dryRun = False,
                         filter_cfg = []\<rparr>,
          env_retries = None,
          env_onPostProcessed = (\<lambda>post merge n. (Suc n, Some (Error ''EIO'')))\<rparr>
         [\<lparr>relativePath = ''a.md'', frontMatterTags = [''own'']\<rparr>,
          \<lparr>relativePath = ''b.md'', frontMatterTags = []\<rparr>]
         (map_of [(''a.md'', [''Old''])]) (0 :: nat) of
        Inl e \<Rightarrow> e = Error ''EIO''
      | Inr st \<Rightarrow> False)
   \<and> (case generateTags
         \<lparr>env_zhCN = codeUnitCompare, env_regexp = (\<lambda>p. None), env_parse = (\<lambda>content. [''generated'']),
          env_fetch = (\<lambda>path n. HttpOk ''[generated]''),
          env_config = \<lparr>sortTags = False, taxonomyRules = None, apiKey = ''k'', dryRun = False,
                         filter_cfg = []\<rparr>,
          env_retries = None,
          env_onPostProcessed = (\<lambda>post merge n. (Suc n, if n < 3 then Some (Error ''EIO'') else None))\<rparr>
         [\<lparr>relativePath = ''a.md'', frontMatterTags = [''own'']\<rparr>]
         (map_of [(''a.md'', [''Old''])]) (0 :: nat) of
        Inl e \<Rightarrow> False
      | Inr st \<Rightarrow> delays st = [2000, 4000] \<and> cbState st = 4
          \<and> results st ''a.md'' = Some \<lparr>resp_tags = [], resp_raw = None,
                                       resp_error = Some (Error ''EIO'')\<rparr>
          \<and> map_option tags (merges st ''a.md'') = Some [''Old'', ''own''])"
  by code_simp

subsection \<open>A run of the generation command\<close>

section \<open>A run\<close>

lemma onPostProcessed_healthy: "healthy (onPostProcessed enUS config)"
  by (simp add: healthy_def onPostProcessed_def Let_def)

lemma onPostProcessed_tagsMap:
  "tagsMap (fst (onPostProcessed enUS config post m rs)) = obj_set (tagsMap rs) (relativePath post) (tags m)"
  by (simp add: onPostProcessed_def Let_def scheduleWrite_def)

lemma onPostProcessed_snapshots:
  "snapshots (fst (onPostProcessed enUS config post m rs)) =
     snapshots rs @ (if dryRun config then []
                     else [sortTagsMap enUS (obj_set (tagsMap rs) (relativePath post) (tags m))])"
  by (simp add: onPostProcessed_def Let_def scheduleWrite_def)

lemma run_processAll:
  assumes "env_onPostProcessed env = onPostProcessed enUS config" "env_retries env = None"
  shows "\<exists>st'. processAll env posts st = Inr st'
     \<and> fst ` set (tagsMap (cbState st')) = fst ` set (tagsMap (cbState st)) \<union> relativePath ` set posts
     \<and> (\<forall>k. k \<notin> relativePath ` set posts \<longrightarrow>
            map_of (tagsMap (cbState st')) k = map_of (tagsMap (cbState st)) k)
     \<and> set (snapshots (cbState st')) \<subseteq> set (snapshots (cbState st)) \<union> range (sortTagsMap enUS)
     \<and> (dryRun config \<longrightarrow> snapshots (cbState st') = snapshots (cbState st))"
proof (induction posts arbitrary: st)
  case Nil
  show ?case by simp
next
  case (Cons p ps)
  have h: "healthy (env_onPostProcessed env)" by (simp add: assms(1) onPostProcessed_healthy)
  from processPost_healthy [OF h assms(2), of p st]
  obtain st1 m where step: "processPost env p st = Inr st1"
    and cb: "cbState st1 = fst (onPostProcessed enUS config p m (cbState st))"
    by (simp add: assms(1))
  from Cons [of st1] obtain st' where run: "processAll env ps st1 = Inr st'"
    and keys: "fst ` set (tagsMap (cbState st')) = fst ` set (tagsMap (cbState st1)) \<union> relativePath ` set ps"
    and keep: "\<And>k. k \<notin> relativePath ` set ps \<Longrightarrow>
            map_of (tagsMap (cbState st')) k = map_of (tagsMap (cbState st1)) k"
    and snaps: "set (snapshots (cbState st')) \<subseteq> set (snapshots (cbState st1)) \<union> range (sortTagsMap enUS)"
    and dry: "dryRun config \<Longrightarrow> snapshots (cbState st') = snapshots (cbState st1)"
    by blast
  have "processAll env (p # ps) st = Inr st'" using step run by simp
  moreover have "fst ` set (tagsMap (cbState st'))
      = fst ` set (tagsMap (cbState st)) \<union> relativePath ` set (p # ps)"
    using keys by (simp add: cb onPostProcessed_tagsMap keys_obj_set)
  moreover have "map_of (tagsMap (cbState st')) k = map_of (tagsMap (cbState st)) k"
    if "k \<notin> relativePath ` set (p # ps)" for k
    using that keep [of k] by (simp add: cb onPostProcessed_tagsMap map_of_obj_set)
  moreover have "set (snapshots (cbState st')) \<subseteq> set (snapshots (cbState st)) \<union> range (sortTagsMap enUS)"
    using snaps by (cases "dryRun config") (auto simp: cb onPostProcessed_snapshots)
  moreover have "snapshots (cbState st') = snapshots (cbState st)" if "dryRun config"
    using that dry by (simp add: cb onPostProcessed_snapshots)
  ultimately show ?case by blast
qed

lemma runGenerate_unfold:
  assumes "posts \<noteq> []"
  shows "runGenerate enUS env forceFull posts hist =
     (case (if postsToProcess forceFull posts hist \<noteq> []
            then map_sum id cbState
                   (generateTags (env\<lparr>env_retries := None,
                                      env_onPostProcessed := onPostProcessed enUS (env_config env)\<rparr>)
                      (postsToProcess forceFull posts hist) (map_of hist)
                      \<lparr>tagsMap = hist, snapshots = []\<rparr>)
            else Inr \<lparr>tagsMap = hist, snapshots = []\<rparr>) of
        Inl e \<Rightarrow> Inl e
      | Inr rs1 \<Rightarrow>
          Inr (Some
            (if dryRun (env_config env) \<or> postsToProcess forceFull posts hist = []
             then \<lparr>run_snapshots = snapshots rs1,
                   run_writeTagsFile = Some (sortTagsMap enUS (prune (env_config env) posts (tagsMap rs1))),
                   run_tagsMap = prune (env_config env) posts (tagsMap rs1)\<rparr>
             else \<lparr>run_snapshots = snapshots rs1
                     @ [sortTagsMap enUS (prune (env_config env) posts (tagsMap rs1))],
                   run_writeTagsFile = None,
                   run_tagsMap = prune (env_config env) posts (tagsMap rs1)\<rparr>)))"
  using assms
  by (auto simp: runGenerate_def Let_def postsToProcess_def scheduleWrite_def split: sum.splits)

lemma run_generateTags:
  assumes "apiKey (env_config env) \<noteq> []"
  shows "\<exists>rs1. map_sum id cbState
           (generateTags (env\<lparr>env_retries := None,
                              env_onPostProcessed := onPostProcessed enUS (env_config env)\<rparr>)
              pp (map_of hist) \<lparr>tagsMap = hist, snapshots = []\<rparr>) = Inr rs1
     \<and> fst ` set (tagsMap rs1) = fst ` set hist \<union> relativePath ` set pp
     \<and> (\<forall>k. k \<notin> relativePath ` set pp \<longrightarrow> map_of (tagsMap rs1) k = map_of hist k)
     \<and> set (snapshots rs1) \<subseteq> range (sortTagsMap enUS)
     \<and> (dryRun (env_config env) \<longrightarrow> snapshots rs1 = [])"
proof -
  let ?env = "env\<lparr>env_retries := None, env_onPostProcessed := onPostProcessed enUS (env_config env)\<rparr>"
  let ?st0 = "\<lparr>results = Map.empty, merges = Map.empty, historicalTagsMap = map_of hist,
              delays = [], cbState = \<lparr>tagsMap = hist, snapshots = []\<rparr>\<rparr>"
  have a: "env_onPostProcessed ?env = onPostProcessed enUS (env_config env)" by simp
  have b: "env_retries ?env = None" by simp
  from run_processAll [OF a b, of pp ?st0]
  obtain st' where "processAll ?env pp ?st0 = Inr st'"
    and "fst ` set (tagsMap (cbState st')) = fst ` set hist \<union> relativePath ` set pp"
    and "\<forall>k. k \<notin> relativePath ` set pp \<longrightarrow> map_of (tagsMap (cbState st')) k = map_of hist k"
    and "set (snapshots (cbState st')) \<subseteq> range (sortTagsMap enUS)"
    and "dryRun (env_config env) \<longrightarrow> snapshots (cbState st') = []"
    by auto
  with assms show ?thesis by (simp add: generateTags_def)
qed

lemma postsToProcess_subset:
  "relativePath ` set (postsToProcess forceFull posts hist) \<subseteq> relativePath ` set posts"
  by (auto simp: postsToProcess_def)

lemma postsToProcess_cover:
  "relativePath ` set posts \<subseteq> fst ` set hist \<union> relativePath ` set (postsToProcess forceFull posts hist)"
proof
  fix k
  assume "k \<in> relativePath ` set posts"
  then obtain p where p: "p \<in> set posts" "k = relativePath p" by blast
  show "k \<in> fst ` set hist \<union> relativePath ` set (postsToProcess forceFull posts hist)"
  proof (cases "map_of hist k")
    case None
    with p show ?thesis by (auto simp: postsToProcess_def)
  next
    case (Some v)
    then have "(k, v) \<in> set hist" by (rule map_of_SomeD)
    then have "k \<in> fst ` set hist" by force
    then show ?thesis by simp
  qed
qed

lemma runGenerate_finalize:
  assumes "posts \<noteq> []" "apiKey (env_config env) \<noteq> []"
  obtains r gen where
    "runGenerate enUS env forceFull posts hist = Inr (Some r)"
    "run_tagsMap r = prune (env_config env) posts gen"
    "fst ` set gen = fst ` set hist \<union> relativePath ` set (postsToProcess forceFull posts hist)"
    "\<forall>k. k \<notin> relativePath ` set (postsToProcess forceFull posts hist) \<longrightarrow>
            map_of gen k = map_of hist k"
    "set (writtenFiles (env_config env) r) \<subseteq> range (sortTagsMap enUS)"
    "dryRun (env_config env) \<longrightarrow> writtenFiles (env_config env) r = []"
    "\<not> dryRun (env_config env) \<longrightarrow>
            writtenFiles (env_config env) r \<noteq> []
            \<and> last (writtenFiles (env_config env) r) = sortTagsMap enUS (run_tagsMap r)"
proof (cases "postsToProcess forceFull posts hist = []")
  case True
  let ?final = "prune (env_config env) posts hist"
  let ?r = "\<lparr>run_snapshots = [], run_writeTagsFile = Some (sortTagsMap enUS ?final),
             run_tagsMap = ?final\<rparr>"
  have run: "runGenerate enUS env forceFull posts hist = Inr (Some ?r)"
    using True by (simp add: runGenerate_unfold [OF assms(1)])
  have t: "run_tagsMap ?r = ?final" by simp
  have k: "fst ` set hist = fst ` set hist \<union> relativePath ` set (postsToProcess forceFull posts hist)"
    using True by simp
  have w: "set (writtenFiles (env_config env) ?r) \<subseteq> range (sortTagsMap enUS)"
    by (auto simp: writtenFiles_def)
  have d: "dryRun (env_config env) \<longrightarrow> writtenFiles (env_config env) ?r = []"
    by (simp add: writtenFiles_def)
  have l: "\<not> dryRun (env_config env) \<longrightarrow>
        writtenFiles (env_config env) ?r \<noteq> []
        \<and> last (writtenFiles (env_config env) ?r) = sortTagsMap enUS (run_tagsMap ?r)"
    by (simp add: writtenFiles_def)
  have kk: "\<forall>k. k \<notin> relativePath ` set (postsToProcess forceFull posts hist) \<longrightarrow>
            map_of hist k = map_of hist k" by simp
  from run t k kk w d l show ?thesis by (rule that)
next
  case False
  from run_generateTags [OF assms(2), of enUS "postsToProcess forceFull posts hist" hist]
  obtain rs1 where gen: "map_sum id cbState
           (generateTags (env\<lparr>env_retries := None,
                              env_onPostProcessed := onPostProcessed enUS (env_config env)\<rparr>)
              (postsToProcess forceFull posts hist) (map_of hist) \<lparr>tagsMap = hist, snapshots = []\<rparr>) = Inr rs1"
    and keys: "fst ` set (tagsMap rs1) = fst ` set hist \<union> relativePath ` set (postsToProcess forceFull posts hist)"
    and keep: "\<forall>k. k \<notin> relativePath ` set (postsToProcess forceFull posts hist) \<longrightarrow>
        map_of (tagsMap rs1) k = map_of hist k"
    and snaps: "set (snapshots rs1) \<subseteq> range (sortTagsMap enUS)"
    and dry: "dryRun (env_config env) \<longrightarrow> snapshots rs1 = []"
    by (elim exE conjE) (rule that)
  let ?final = "prune (env_config env) posts (tagsMap rs1)"
  let ?r = "if dryRun (env_config env)
       then \<lparr>run_snapshots = snapshots rs1, run_writeTagsFile = Some (sortTagsMap enUS ?final),
             run_tagsMap = ?final\<rparr>
       else \<lparr>run_snapshots = snapshots rs1 @ [sortTagsMap enUS ?final], run_writeTagsFile = None,
             run_tagsMap = ?final\<rparr>"
  have run: "runGenerate enUS env forceFull posts hist = Inr (Some ?r)"
    using False gen by (simp add: runGenerate_unfold [OF assms(1)])
  have t: "run_tagsMap ?r = ?final" by simp
  have w: "set (writtenFiles (env_config env) ?r) \<subseteq> range (sortTagsMap enUS)"
    using snaps dry by (auto simp: writtenFiles_def)
  have d: "dryRun (env_config env) \<longrightarrow> writtenFiles (env_config env) ?r = []"
    using dry by (simp add: writtenFiles_def)
  have l: "\<not> dryRun (env_config env) \<longrightarrow>
        writtenFiles (env_config env) ?r \<noteq> []
        \<and> last (writtenFiles (env_config env) ?r) = sortTagsMap enUS (run_tagsMap ?r)"
    by (simp add: writtenFiles_def)
  from run t keys keep w d l show ?thesis by (rule that)
qed

lemma inter_cover: "A = (H \<union> P) \<inter> Q \<Longrightarrow> P \<subseteq> Q \<Longrightarrow> Q \<subseteq> H \<union> P \<Longrightarrow> A = Q"
  by blast

lemma keys_filter: "fst ` set (filter (\<lambda>e. fst e \<in> P) m) = fst ` set m \<inter> P"
  by auto

lemma map_of_filter_keys: "k \<in> P \<Longrightarrow> map_of (filter (\<lambda>e. fst e \<in> P) m) k = map_of m k"
  by (induction m) auto

text \<open>
  C3. The pruning of a run keeps the whole index when a path filter is active, and
  otherwise keeps exactly the entries whose identifier belongs to a document of the
  current pass. A run over an empty pass returns before it and writes nothing. A run
  that finalizes without a filter ends with an index whose identifiers are exactly those
  of the pass; with a filter it ends with every identifier the index had, and the
  entries of the documents outside the pass as they were.
\<close>

theorem prune_only_unfiltered:
  "prune config posts m =
     (if trim (filter_cfg config) = [] then filter (\<lambda>e. fst e \<in> relativePath ` set posts) m else m)
   \<and> (posts = [] \<longrightarrow> runGenerate enUS env forceFull posts hist = Inr None)
   \<and> (posts \<noteq> [] \<and> apiKey (env_config env) \<noteq> [] \<longrightarrow>
        (\<exists>r. runGenerate enUS env forceFull posts hist = Inr (Some r)
           \<and> (trim (filter_cfg (env_config env)) = [] \<longrightarrow>
                 fst ` set (run_tagsMap r) = relativePath ` set posts)
           \<and> (trim (filter_cfg (env_config env)) \<noteq> [] \<longrightarrow>
                 fst ` set hist \<subseteq> fst ` set (run_tagsMap r)
                 \<and> (\<forall>k. k \<notin> relativePath ` set posts \<longrightarrow> map_of (run_tagsMap r) k = map_of hist k))))"
proof (intro conjI impI)
  show "prune config posts m =
     (if trim (filter_cfg config) = [] then filter (\<lambda>e. fst e \<in> relativePath ` set posts) m else m)"
    by (rule prune_spec)
  show "runGenerate enUS env forceFull posts hist = Inr None" if "posts = []"
    using that by (simp add: runGenerate_def)
  show "\<exists>r. runGenerate enUS env forceFull posts hist = Inr (Some r)
           \<and> (trim (filter_cfg (env_config env)) = [] \<longrightarrow>
                 fst ` set (run_tagsMap r) = relativePath ` set posts)
           \<and> (trim (filter_cfg (env_config env)) \<noteq> [] \<longrightarrow>
                 fst ` set hist \<subseteq> fst ` set (run_tagsMap r)
                 \<and> (\<forall>k. k \<notin> relativePath ` set posts \<longrightarrow> map_of (run_tagsMap r) k = map_of hist k))"
    if a: "posts \<noteq> [] \<and> apiKey (env_config env) \<noteq> []"
  proof -
    let ?pp = "postsToProcess forceFull posts hist"
    from a have p1: "posts \<noteq> []" and p2: "apiKey (env_config env) \<noteq> []" by simp_all
    obtain r gen where run: "runGenerate enUS env forceFull posts hist = Inr (Some r)"
      and t: "run_tagsMap r = prune (env_config env) posts gen"
      and keys: "fst ` set gen = fst ` set hist \<union> relativePath ` set ?pp"
      and keepA: "\<forall>k. k \<notin> relativePath ` set ?pp \<longrightarrow> map_of gen k = map_of hist k"
      by (rule runGenerate_finalize [OF p1 p2, of enUS forceFull hist])
    have keep: "map_of gen k = map_of hist k" if "k \<notin> relativePath ` set ?pp" for k
      by (rule keepA [rule_format, OF that])
    have u: "fst ` set (run_tagsMap r) = relativePath ` set posts"
      if "trim (filter_cfg (env_config env)) = []"
    proof -
      have "run_tagsMap r = filter (\<lambda>e. fst e \<in> relativePath ` set posts) gen"
        using that by (simp add: t prune_spec)
      then have "fst ` set (run_tagsMap r) = fst ` set gen \<inter> relativePath ` set posts"
        by (simp only: keys_filter)
      then have "fst ` set (run_tagsMap r) = (fst ` set hist \<union> relativePath ` set ?pp) \<inter> relativePath ` set posts"
        by (simp only: keys)
      then show ?thesis
        by (rule inter_cover [OF _ postsToProcess_subset postsToProcess_cover])
    qed
    have f: "fst ` set hist \<subseteq> fst ` set (run_tagsMap r)
        \<and> (\<forall>k. k \<notin> relativePath ` set posts \<longrightarrow> map_of (run_tagsMap r) k = map_of hist k)"
      if "trim (filter_cfg (env_config env)) \<noteq> []"
    proof -
      have e: "run_tagsMap r = gen"
        using that by (simp add: t prune_spec)
      have n: "k \<notin> relativePath ` set ?pp" if "k \<notin> relativePath ` set posts" for k
        using that postsToProcess_subset [of forceFull posts hist] by (rule contra_subsetD [rotated])
      have m: "\<forall>k. k \<notin> relativePath ` set posts \<longrightarrow> map_of gen k = map_of hist k"
      proof (intro allI impI)
        fix k assume "k \<notin> relativePath ` set posts"
        then have "k \<notin> relativePath ` set ?pp" by (rule n)
        then show "map_of gen k = map_of hist k" by (rule keep)
      qed
      have s: "fst ` set hist \<subseteq> fst ` set gen"
        unfolding keys by (rule Un_upper1)
      show ?thesis unfolding e using s m by (rule conjI)
    qed
    show ?thesis
      apply (rule exI [of _ r])
      apply (intro conjI impI)
      apply (rule run)
      apply (erule u)
      apply (erule f [THEN conjunct1])
      apply (erule f [THEN conjunct2])
      done
  qed
qed

theorem prune_only_unfiltered_witness:
  "(\<exists>r. runGenerate codeUnitCompare
          \<lparr>env_zhCN = codeUnitCompare, env_regexp = (\<lambda>p. None), env_parse = (\<lambda>content. [''generated'']),
           env_fetch = (\<lambda>path n. HttpOk ''[generated]''),
           env_config = \<lparr>sortTags = False, taxonomyRules = None, apiKey = ''k'', dryRun = False,
                          filter_cfg = []\<rparr>,
           env_retries = None,
           env_onPostProcessed = (\<lambda>post merge rs. (rs, None))\<rparr>
          False [\<lparr>relativePath = ''a.md'', frontMatterTags = [''own'']\<rparr>]
          [(''b.md'', [''x''])] = Inr (Some r)
        \<and> fst ` set (run_tagsMap r) = {''a.md''})
   \<and> (\<exists>r. runGenerate codeUnitCompare
          \<lparr>env_zhCN = codeUnitCompare, env_regexp = (\<lambda>p. None), env_parse = (\<lambda>content. [''generated'']),
           env_fetch = (\<lambda>path n. HttpOk ''[generated]''),
           env_config = \<lparr>sortTags = False, taxonomyRules = None, apiKey = ''k'', dryRun = False,
                          filter_cfg = ''a''\<rparr>,
           env_retries = None,
           env_onPostProcessed = (\<lambda>post merge rs. (rs, None))\<rparr>
          False [\<lparr>relativePath = ''a.md'', frontMatterTags = [''own'']\<rparr>]
          [(''b.md'', [''x''])] = Inr (Some r)
        \<and> ''b.md'' \<in> fst ` set (run_tagsMap r)
        \<and> map_of (run_tagsMap r) ''b.md'' = Some [''x''])
   \<and> runGenerate codeUnitCompare
          \<lparr>env_zhCN = codeUnitCompare, env_regexp = (\<lambda>p. None), env_parse = (\<lambda>content. [''generated'']),
           env_fetch = (\<lambda>path n. HttpOk ''[generated]''),
           env_config = \<lparr>sortTags = False, taxonomyRules = None, apiKey = ''k'', dryRun = False,
                          filter_cfg = []\<rparr>,
           env_retries = None,
           env_onPostProcessed = (\<lambda>post merge rs. (rs, None))\<rparr>
          False [] [(''b.md'', [''x''])] = Inr None"
proof -
  have tA: "trim ''a'' = ''a''" by code_simp
  have ne: "''b.md'' \<noteq> ''a.md''" by simp
  note u = prune_only_unfiltered [where enUS = codeUnitCompare and forceFull = False
      and hist = "[(''b.md'', [''x''])]"
      and posts = "[\<lparr>relativePath = ''a.md'', frontMatterTags = [''own'']\<rparr>]"
      and env = "\<lparr>env_zhCN = codeUnitCompare, env_regexp = (\<lambda>p. None), env_parse = (\<lambda>content. [''generated'']),
           env_fetch = (\<lambda>path n. HttpOk ''[generated]''),
           env_config = \<lparr>sortTags = False, taxonomyRules = None, apiKey = ''k'', dryRun = False,
                          filter_cfg = []\<rparr>,
           env_retries = None,
           env_onPostProcessed = (\<lambda>post merge rs. (rs, None))\<rparr>",
      THEN conjunct2, THEN conjunct2]
  note f = prune_only_unfiltered [where enUS = codeUnitCompare and forceFull = False
      and hist = "[(''b.md'', [''x''])]"
      and posts = "[\<lparr>relativePath = ''a.md'', frontMatterTags = [''own'']\<rparr>]"
      and env = "\<lparr>env_zhCN = codeUnitCompare, env_regexp = (\<lambda>p. None), env_parse = (\<lambda>content. [''generated'']),
           env_fetch = (\<lambda>path n. HttpOk ''[generated]''),
           env_config = \<lparr>sortTags = False, taxonomyRules = None, apiKey = ''k'', dryRun = False,
                          filter_cfg = ''a''\<rparr>,
           env_retries = None,
           env_onPostProcessed = (\<lambda>post merge rs. (rs, None))\<rparr>",
      THEN conjunct2, THEN conjunct2]
  note e = prune_only_unfiltered [where enUS = codeUnitCompare and forceFull = False
      and hist = "[(''b.md'', [''x''])]"
      and posts = "[]"
      and env = "\<lparr>env_zhCN = codeUnitCompare, env_regexp = (\<lambda>p. None), env_parse = (\<lambda>content. [''generated'']),
           env_fetch = (\<lambda>path n. HttpOk ''[generated]''),
           env_config = \<lparr>sortTags = False, taxonomyRules = None, apiKey = ''k'', dryRun = False,
                          filter_cfg = []\<rparr>,
           env_retries = None,
           env_onPostProcessed = (\<lambda>post merge rs. (rs, None))\<rparr>",
      THEN conjunct2, THEN conjunct1]
  from u have 1: "\<exists>r. runGenerate codeUnitCompare
          \<lparr>env_zhCN = codeUnitCompare, env_regexp = (\<lambda>p. None), env_parse = (\<lambda>content. [''generated'']),
           env_fetch = (\<lambda>path n. HttpOk ''[generated]''),
           env_config = \<lparr>sortTags = False, taxonomyRules = None, apiKey = ''k'', dryRun = False,
                          filter_cfg = []\<rparr>,
           env_retries = None,
           env_onPostProcessed = (\<lambda>post merge rs. (rs, None))\<rparr>
          False [\<lparr>relativePath = ''a.md'', frontMatterTags = [''own'']\<rparr>]
          [(''b.md'', [''x''])] = Inr (Some r)
        \<and> fst ` set (run_tagsMap r) = {''a.md''}"
    by (simp add: trim_Nil)
  from f have 2: "\<exists>r. runGenerate codeUnitCompare
          \<lparr>env_zhCN = codeUnitCompare, env_regexp = (\<lambda>p. None), env_parse = (\<lambda>content. [''generated'']),
           env_fetch = (\<lambda>path n. HttpOk ''[generated]''),
           env_config = \<lparr>sortTags = False, taxonomyRules = None, apiKey = ''k'', dryRun = False,
                          filter_cfg = ''a''\<rparr>,
           env_retries = None,
           env_onPostProcessed = (\<lambda>post merge rs. (rs, None))\<rparr>
          False [\<lparr>relativePath = ''a.md'', frontMatterTags = [''own'']\<rparr>]
          [(''b.md'', [''x''])] = Inr (Some r)
        \<and> ''b.md'' \<in> fst ` set (run_tagsMap r)
        \<and> map_of (run_tagsMap r) ''b.md'' = Some [''x'']"
    by (simp add: tA) (metis ne)
  from e have 3: "runGenerate codeUnitCompare
          \<lparr>env_zhCN = codeUnitCompare, env_regexp = (\<lambda>p. None), env_parse = (\<lambda>content. [''generated'']),
           env_fetch = (\<lambda>path n. HttpOk ''[generated]''),
           env_config = \<lparr>sortTags = False, taxonomyRules = None, apiKey = ''k'', dryRun = False,
                          filter_cfg = []\<rparr>,
           env_retries = None,
           env_onPostProcessed = (\<lambda>post merge rs. (rs, None))\<rparr>
          False [] [(''b.md'', [''x''])] = Inr None"
    by simp
  from 1 2 3 show ?thesis by (intro conjI)
qed

lemma sortTagsMap_two:
  "map fst (sortTagsMap enUS [(''9'', a), (''10'', b)]) = [''9'', ''10'']"
  by (simp add: sortTagsMap_def jsSort_def fromEntries_def obj_set_def arrayIndex_examples)

subsection \<open>The order of the keys on disk\<close>

lemma plainNames_jsSort: "plainNames (jsSort cmp m) \<longleftrightarrow> plainNames m"
  by (simp add: plainNames_def distinct_map_jsSort list_ex_iff set_jsSort)

lemma sortTagsMap_plain:
  "plainNames m \<Longrightarrow> sortTagsMap enUS m = jsSort (\<lambda>a b. enUS (fst a) (fst b)) m"
  by (simp add: sortTagsMap_def fromEntries_plain plainNames_jsSort)

lemma consistent_fst: "consistent enUS \<Longrightarrow> consistent (\<lambda>a b. enUS (fst a) (fst b))"
  unfolding consistent_def by blast

lemma sortTagsMap_sorted:
  assumes "consistent enUS" "plainNames m"
  shows "sorted_wrt (\<lambda>a b. enUS a b \<le> 0) (map fst (sortTagsMap enUS m))"
proof -
  have "sorted_wrt (\<lambda>a b. enUS (fst a) (fst b) \<le> 0) (jsSort (\<lambda>a b. enUS (fst a) (fst b)) m)"
    using consistent_fst [OF assms(1)] by (rule sorted_jsSort)
  then show ?thesis
    by (simp add: sortTagsMap_plain [OF assms(2)] sorted_wrt_map)
qed

lemma sortTagsMap_three:
  "map fst (sortTagsMap enUS [(''9'', a), (''10'', b), (''a.md'', c)]) = [''9'', ''10'', ''a.md'']"
  by (simp add: sortTagsMap_def jsSort_def fromEntries_def obj_set_def arrayIndex_examples)

lemma run_three:
  "runGenerate enUS
      \<lparr>env_zhCN = codeUnitCompare, env_regexp = (\<lambda>p. None), env_parse = (\<lambda>content. [''generated'']),
       env_fetch = (\<lambda>path n. HttpOk ''[generated]''),
       env_config = \<lparr>sortTags = False, taxonomyRules = None, apiKey = ''k'', dryRun = False,
                      filter_cfg = ''a''\<rparr>,
       env_retries = None,
       env_onPostProcessed = (\<lambda>post merge rs. (rs, None))\<rparr>
      False [\<lparr>relativePath = ''a.md'', frontMatterTags = [''z'']\<rparr>]
      [(''9'', [''x'']), (''10'', [''y'']), (''a.md'', [''z''])]
   = Inr (Some \<lparr>run_snapshots = [],
                 run_writeTagsFile = Some (sortTagsMap enUS [(''9'', [''x'']), (''10'', [''y'']), (''a.md'', [''z''])]),
                 run_tagsMap = [(''9'', [''x'']), (''10'', [''y'']), (''a.md'', [''z''])]\<rparr>)"
proof -
  have tA: "trim ''a'' = ''a''" by code_simp
  show ?thesis
    by (simp add: runGenerate_unfold postsToProcess_def prune_spec tA)
qed

text \<open>
  C10. Every file a run writes is the result of \<open>sortTagsMap\<close> (lemma
  \<open>runGenerate_finalize\<close>), and \<open>sortTagsMap\<close> sorts the keys when none of them is an
  array index (lemma \<open>sortTagsMap_sorted\<close>). The keys on disk are nevertheless not always
  in the order of the comparator: \<open>sortTagsMap\<close> rebuilds an object from the sorted
  entries, and an object lists its array-index keys first, in numeric order. A run under
  the filter \<open>a\<close> over the document \<open>a.md\<close>, with an index that holds the keys \<open>9\<close>,
  \<open>10\<close> and \<open>a.md\<close>, writes one file, with the keys in the order \<open>9\<close>, \<open>10\<close>, \<open>a.md\<close>
  whatever the comparator is, while the comparison by code units, which agrees with the
  locale on these keys, puts \<open>10\<close> before \<open>9\<close>.
\<close>

theorem sorted_write_divergence:
  "(case runGenerate enUS
      \<lparr>env_zhCN = codeUnitCompare, env_regexp = (\<lambda>p. None), env_parse = (\<lambda>content. [''generated'']),
       env_fetch = (\<lambda>path n. HttpOk ''[generated]''),
       env_config = \<lparr>sortTags = False, taxonomyRules = None, apiKey = ''k'', dryRun = False,
                      filter_cfg = ''a''\<rparr>,
       env_retries = None,
       env_onPostProcessed = (\<lambda>post merge rs. (rs, None))\<rparr>
      False [\<lparr>relativePath = ''a.md'', frontMatterTags = [''z'']\<rparr>]
      [(''9'', [''x'']), (''10'', [''y'']), (''a.md'', [''z''])] of
      Inl e \<Rightarrow> False
    | Inr None \<Rightarrow> False
    | Inr (Some r) \<Rightarrow>
        map (map fst)
          (writtenFiles \<lparr>sortTags = False, taxonomyRules = None, apiKey = ''k'', dryRun = False,
                         filter_cfg = ''a''\<rparr> r) = [[''9'', ''10'', ''a.md'']])
   \<and> codeUnitCompare ''10'' ''9'' < 0
   \<and> map fst (sortTagsMap enUS [(''9'', a), (''10'', b)]) = [''9'', ''10'']"
proof (intro conjI)
  show "codeUnitCompare ''10'' ''9'' < 0" by code_simp
  show "map fst (sortTagsMap enUS [(''9'', a), (''10'', b)]) = [''9'', ''10'']"
    by (rule sortTagsMap_two)
  show "(case runGenerate enUS
      \<lparr>env_zhCN = codeUnitCompare, env_regexp = (\<lambda>p. None), env_parse = (\<lambda>content. [''generated'']),
       env_fetch = (\<lambda>path n. HttpOk ''[generated]''),
       env_config = \<lparr>sortTags = False, taxonomyRules = None, apiKey = ''k'', dryRun = False,
                      filter_cfg = ''a''\<rparr>,
       env_retries = None,
       env_onPostProcessed = (\<lambda>post merge rs. (rs, None))\<rparr>
      False [\<lparr>relativePath = ''a.md'', frontMatterTags = [''z'']\<rparr>]
      [(''9'', [''x'']), (''10'', [''y'']), (''a.md'', [''z''])] of
      Inl e \<Rightarrow> False
    | Inr None \<Rightarrow> False
    | Inr (Some r) \<Rightarrow>
        map (map fst)
          (writtenFiles \<lparr>sortTags = False, taxonomyRules = None, apiKey = ''k'', dryRun = False,
                         filter_cfg = ''a''\<rparr> r) = [[''9'', ''10'', ''a.md'']])"
    by (simp only: run_three sum.case option.case writtenFiles_def RunResult.simps TagSyncConfig.simps
        if_False append_Nil list.map sortTagsMap_three)
qed

end
